theory Spec2Isabelle
  imports Main
begin

section \<open>Python string primitives used by the segmenter\<close>

text \<open>
  A Python \<open>str\<close> is modelled as a \<open>string\<close> (a list of \<open>char\<close>); a \<open>char\<close> stands for
  a code point below 256. \<open>str.strip()\<close> without arguments removes the characters for which
  \<open>str.isspace\<close> holds; below 256 these are the code points 9 to 13, 28 to 32, 133 and 160.
\<close>

definition isspace :: "char \<Rightarrow> bool" where
  "isspace c = (of_char c \<in> {9::nat, 10, 11, 12, 13, 28, 29, 30, 31, 32, 133, 160})"

definition strip :: "string \<Rightarrow> string" where
  "strip s = rev (dropWhile isspace (rev (dropWhile isspace s)))"

text \<open>
  Slice indices are Python ints: a negative index counts from the end, and every index is
  clamped to the range of the string, so a slice never raises.
\<close>

definition slice_index :: "nat \<Rightarrow> int \<Rightarrow> nat" where
  "slice_index n i = (if i < 0 then nat (int n + i) else min (nat i) n)"

definition py_slice :: "string \<Rightarrow> int \<Rightarrow> int \<Rightarrow> string" where
  "py_slice s i j =
     (let a = slice_index (length s) i; b = slice_index (length s) j
      in take (b - a) (drop a s))"

definition py_slice_from :: "string \<Rightarrow> int \<Rightarrow> string" where
  "py_slice_from s i = drop (slice_index (length s) i) s"

text \<open>
  \<open>s.rfind(d)\<close>: the highest index at which \<open>d\<close> occurs in \<open>s\<close>, or \<open>-1\<close>. The scan starts
  at the last position where \<open>d\<close> still fits and walks down to 0.
\<close>

fun rfind_from :: "string \<Rightarrow> string \<Rightarrow> nat \<Rightarrow> int" where
  "rfind_from s d 0 = (if take (length d) s = d then 0 else - 1)"
| "rfind_from s d (Suc i) =
     (if take (length d) (drop (Suc i) s) = d then int (Suc i) else rfind_from s d i)"

definition rfind :: "string \<Rightarrow> string \<Rightarrow> int" where
  "rfind s d = (if length d \<le> length s then rfind_from s d (length s - length d) else - 1)"

section \<open>AudioProcessor.chunk_text\<close>

text \<open>The sentence-ending markers, in the order the source tries them.\<close>

definition delimiters :: "string list" where
  "delimiters =
     [[CHR ''.'', CHR '' ''], [CHR ''!'', CHR '' ''], [CHR ''?'', CHR '' ''],
      [CHR ''.'', CHR 0x0A], [CHR ''!'', CHR 0x0A], [CHR ''?'', CHR 0x0A]]"

text \<open>
  The inner \<open>for delimiter in [...]\<close> loop: the first delimiter that \<open>rfind\<close> finds in the
  chunk moves \<open>end_pos\<close> and breaks; when the list is exhausted \<open>end_pos\<close> is unchanged.
\<close>

fun find_sentence_end :: "string \<Rightarrow> int \<Rightarrow> int \<Rightarrow> string list \<Rightarrow> int" where
  "find_sentence_end chunk current_pos end_pos [] = end_pos"
| "find_sentence_end chunk current_pos end_pos (delimiter # rest) =
     (let last_delim = rfind chunk delimiter in
      if last_delim \<noteq> - 1 then current_pos + last_delim + int (length delimiter)
      else find_sentence_end chunk current_pos end_pos rest)"

text \<open>
  The boundary one iteration of the \<open>while\<close> loop chooses when it is not the last one:
  the tentative cut \<open>current_pos + max_chars\<close>, moved by the delimiter search over the
  window \<open>text[current_pos:end_pos]\<close>.
\<close>

definition next_end_pos :: "string \<Rightarrow> int \<Rightarrow> int \<Rightarrow> int" where
  "next_end_pos text max_chars current_pos =
     (let end_pos = current_pos + max_chars;
          chunk = py_slice text current_pos end_pos
      in find_sentence_end chunk current_pos end_pos delimiters)"

text \<open>
  The \<open>while current_pos < len(text)\<close> loop. It is a partial function: \<open>None\<close> is a loop
  that never returns (as happens for \<open>max_chars = 0\<close> on a text that is not empty, where the
  cursor does not move).
\<close>

partial_function (option) chunk_loop ::
  "string \<Rightarrow> int \<Rightarrow> int \<Rightarrow> string list \<Rightarrow> string list option" where
  "chunk_loop text max_chars current_pos chunks =
     (if current_pos < int (length text) then
        (let end_pos = current_pos + max_chars in
         if end_pos \<ge> int (length text)
         then Some (chunks @ [strip (py_slice_from text current_pos)])
         else
           (let chunk = py_slice text current_pos end_pos;
                end_pos = find_sentence_end chunk current_pos end_pos delimiters
            in chunk_loop text max_chars end_pos
                 (chunks @ [strip (py_slice text current_pos end_pos)])))
      else Some chunks)"

declare chunk_loop.simps [code]

definition chunk_text :: "string \<Rightarrow> int \<Rightarrow> string list option" where
  "chunk_text text max_chars =
     (if int (length text) \<le> max_chars then Some [text]
      else chunk_loop text max_chars 0 [])"


section \<open>Boundaries and untrimmed slices\<close>

text \<open>
  The source keeps only the trimmed chunks. To speak about the boundaries it chooses, the
  same loop is run once more recording, instead of the trimmed chunk, the pair
  \<open>(current_pos, end_pos)\<close> of each \<open>append\<close>; the last chunk \<open>text[current_pos:]\<close> ends at
  \<open>len(text)\<close>.
\<close>

partial_function (option) chunk_spans_loop ::
  "string \<Rightarrow> int \<Rightarrow> int \<Rightarrow> (int \<times> int) list \<Rightarrow> (int \<times> int) list option" where
  "chunk_spans_loop text max_chars current_pos spans =
     (if current_pos < int (length text) then
        (let end_pos = current_pos + max_chars in
         if end_pos \<ge> int (length text)
         then Some (spans @ [(current_pos, int (length text))])
         else
           (let chunk = py_slice text current_pos end_pos;
                end_pos = find_sentence_end chunk current_pos end_pos delimiters
            in chunk_spans_loop text max_chars end_pos (spans @ [(current_pos, end_pos)])))
      else Some spans)"

declare chunk_spans_loop.simps [code]

definition chunk_spans :: "string \<Rightarrow> int \<Rightarrow> (int \<times> int) list option" where
  "chunk_spans text max_chars =
     (if int (length text) \<le> max_chars then Some [(0, int (length text))]
      else chunk_spans_loop text max_chars 0 [])"

definition span_slice :: "string \<Rightarrow> int \<times> int \<Rightarrow> string" where
  "span_slice text sp = py_slice text (fst sp) (snd sp)"

text \<open>Each span starts where the previous one ended, from \<open>a\<close> up to \<open>b\<close>.\<close>

fun contiguous :: "int \<Rightarrow> (int \<times> int) list \<Rightarrow> int \<Rightarrow> bool" where
  "contiguous a [] b = (a = b)"
| "contiguous a (sp # rest) b = (fst sp = a \<and> contiguous (snd sp) rest b)"

text \<open>An occurrence of \<open>d\<close> in \<open>s\<close> at index \<open>i\<close>.\<close>

definition occurs_at :: "string \<Rightarrow> string \<Rightarrow> nat \<Rightarrow> bool" where
  "occurs_at s d i = (i + length d \<le> length s \<and> take (length d) (drop i s) = d)"

text \<open>The indices at which \<open>d\<close> occurs in \<open>s\<close>, in ascending order.\<close>

definition occurrences :: "string \<Rightarrow> string \<Rightarrow> nat list" where
  "occurrences s d = filter (occurs_at s d) [0..<Suc (length s)]"

text \<open>
  The rule for a boundary \<open>b\<close> chosen at the cursor \<open>cur\<close>, in the words of the
  specification: of the markers that occur in the window \<open>text[cur : cur + max_chars]\<close> the
  first in the fixed order wins, and \<open>b\<close> lies immediately after its rightmost occurrence;
  when no marker occurs in the window, \<open>b\<close> is the hard cut \<open>cur + max_chars\<close>.
\<close>

definition marker_boundary :: "string \<Rightarrow> int \<Rightarrow> int \<Rightarrow> int \<Rightarrow> bool" where
  "marker_boundary text max_chars cur b =
     (let window = py_slice text cur (cur + max_chars) in
      case filter (\<lambda>d. occurrences window d \<noteq> []) delimiters of
        [] \<Rightarrow> b = cur + max_chars
      | d # others \<Rightarrow> b = cur + int (last (occurrences window d)) + int (length d))"

text \<open>
  A scan of the text from the cursor \<open>cur\<close> by that rule: each span starts at the cursor;
  when \<open>cur + max_chars\<close> reaches the end of the text, the span runs to the end and is
  the last one; otherwise it ends at the boundary the rule gives, where the scan goes on.
\<close>

fun follows_rule :: "string \<Rightarrow> int \<Rightarrow> int \<Rightarrow> (int \<times> int) list \<Rightarrow> bool" where
  "follows_rule text max_chars cur [] = (\<not> cur < int (length text))"
| "follows_rule text max_chars cur (sp # rest) =
     (fst sp = cur \<and> cur < int (length text)
      \<and> (if cur + max_chars \<ge> int (length text)
          then snd sp = int (length text) \<and> rest = []
          else marker_boundary text max_chars cur (snd sp)
               \<and> follows_rule text max_chars (snd sp) rest))"

section \<open>The processor, its disk and its collaborators\<close>

text \<open>
  A path is the list of its components. The local disk maps a path to what the file
  holds: the text of a script, or audio samples with their sample rate. \<open>sf.read\<close> raises
  unless the path holds audio, \<open>open(...).read()\<close> raises unless the path holds text. Audio
  samples are integers; what is read back is what was written.
\<close>

type_synonym path = "string list"

datatype content = Text string | Audio "int list" nat

datatype exn = FileNotFoundError | UnicodeDecodeError | SoundFileError | ModelLoadError
  | InferenceError | ValueError

text \<open>
  What a call of \<open>sf.write\<close> does: it writes the file, or it raises; a write that raises
  leaves the path as it was (\<open>None\<close>) or leaves something there (a created or truncated
  file).
\<close>

datatype write_result = Written | WriteRaises exn "content option"

text \<open>
  The state the code mutates: the disk, the fields \<open>f5tts_model\<close> and \<open>drive_manager\<close> of
  the \<open>AudioProcessor\<close> (set or \<open>None\<close>), the numbers of \<open>infer\<close> calls and of \<open>sf.write\<close>
  calls made so far, and the \<open>upload_file\<close> calls made so far.
\<close>

record state =
  files :: "path \<rightharpoonup> content"
  f5tts_model :: bool
  drive_manager :: bool
  infer_calls :: nat
  write_calls :: nat
  uploads :: "(path \<times> string option) list"

text \<open>
  The collaborators: \<open>load_f5tts\<close> is what constructing \<open>F5TTS()\<close> does (it returns or
  raises), \<open>infer\<close> is what the \<open>n\<close>-th call \<open>f5tts_model.infer(ref_file, ref_text, gen_text)\<close>
  does (it returns samples or raises), \<open>sf_write_result\<close> is what the \<open>n\<close>-th call
  \<open>sf.write(file, data, samplerate)\<close> does, and \<open>concatenate_raises\<close> tells whether
  \<open>np.concatenate\<close> raises on a non-empty list of arrays (it returns their concatenation
  otherwise); \<open>base_dir\<close> is the directory of the processor.
\<close>

record env =
  base_dir :: path
  load_f5tts :: "exn + unit"
  infer :: "nat \<Rightarrow> path \<Rightarrow> string \<Rightarrow> string \<Rightarrow> exn + int list"
  sf_write_result :: "nat \<Rightarrow> path \<Rightarrow> int list \<Rightarrow> nat \<Rightarrow> write_result"
  concatenate_raises :: "int list list \<Rightarrow> exn option"

definition temp_dir :: "env \<Rightarrow> path" where
  "temp_dir e = base_dir e @ [''temp'']"

definition output_dir :: "env \<Rightarrow> path" where
  "output_dir e = base_dir e @ [''output'', ''generated_audio'']"

text \<open>
  \<open>sf.write\<close>: a successful call stores the samples and the rate at the path, replacing
  what was there; a call that raises leaves what \<open>sf_write_result\<close> says.
\<close>

definition sf_write ::
  "env \<Rightarrow> state \<Rightarrow> path \<Rightarrow> int list \<Rightarrow> nat \<Rightarrow> (exn + unit) \<times> state" where
  "sf_write e w p data samplerate =
     (case sf_write_result e (write_calls w) p data samplerate of
        Written \<Rightarrow>
          (Inr (), w\<lparr>write_calls := Suc (write_calls w),
                       files := (files w)(p \<mapsto> Audio data samplerate)\<rparr>)
      | WriteRaises err left \<Rightarrow>
          (Inl err, w\<lparr>write_calls := Suc (write_calls w),
                        files := (case left of None \<Rightarrow> files w | Some c \<Rightarrow> (files w)(p \<mapsto> c))\<rparr>))"

definition sf_read :: "state \<Rightarrow> path \<Rightarrow> exn + (int list \<times> nat)" where
  "sf_read w p =
     (case files w p of
        Some (Audio data samplerate) \<Rightarrow> Inr (data, samplerate)
      | Some (Text t) \<Rightarrow> Inl SoundFileError
      | None \<Rightarrow> Inl SoundFileError)"

definition read_text :: "state \<Rightarrow> path \<Rightarrow> exn + string" where
  "read_text w p =
     (case files w p of
        Some (Text t) \<Rightarrow> Inr t
      | Some (Audio data samplerate) \<Rightarrow> Inl UnicodeDecodeError
      | None \<Rightarrow> Inl FileNotFoundError)"

text \<open>
  \<open>DriveManager.upload_file\<close> catches every exception of its own and returns an id or
  \<open>None\<close>, which the processor ignores; it does not touch the local disk. The model
  records the call.
\<close>

definition upload_file :: "state \<Rightarrow> path \<Rightarrow> string option \<Rightarrow> state" where
  "upload_file w file_path folder_id = w\<lparr>uploads := uploads w @ [(file_path, folder_id)]\<rparr>"

subsection \<open>File names\<close>

text \<open>\<open>Path.name\<close> and \<open>Path.stem\<close>: the last component, and it without its last suffix.\<close>

definition path_name :: "path \<Rightarrow> string" where
  "path_name p = (if p = [] then [] else last p)"

definition path_stem :: "path \<Rightarrow> string" where
  "path_stem p =
     (let name = path_name p; i = rfind name ''.''
      in if 0 < i \<and> i < int (length name) - 1 then py_slice name 0 i else name)"

text \<open>The format \<open>{n:03d}\<close>: the decimal digits of \<open>n\<close>, padded with zeros to width 3.\<close>

fun decimal :: "nat \<Rightarrow> string" where
  "decimal n =
     (if n < 10 then [char_of (48 + n)]
      else decimal (n div 10) @ [char_of (48 + n mod 10)])"

declare decimal.simps [simp del]

definition format_03d :: "nat \<Rightarrow> string" where
  "format_03d n = replicate (3 - length (decimal n)) CHR ''0'' @ decimal n"

definition chunk_file_name :: "string \<Rightarrow> nat \<Rightarrow> string" where
  "chunk_file_name script_name i = script_name @ ''_chunk_'' @ format_03d (i + 1) @ ''.wav''"

section \<open>AudioProcessor.generate_audio_chunk\<close>

definition load_f5tts_model :: "env \<Rightarrow> state \<Rightarrow> (exn + unit) \<times> state" where
  "load_f5tts_model e w =
     (case load_f5tts e of
        Inl err \<Rightarrow> (Inl err, w)
      | Inr u \<Rightarrow> (Inr (), w\<lparr>f5tts_model := True\<rparr>))"

text \<open>
  The lazy load stands before the \<open>try\<close>: what it raises leaves the function. Inside the
  \<open>try\<close> stand the \<open>infer\<close> call and the \<open>sf.write\<close> of its samples at 24000 Hz: when either
  raises the answer is \<open>False\<close>, otherwise it is \<open>True\<close>.
\<close>

definition generate_audio_chunk ::
  "env \<Rightarrow> state \<Rightarrow> string \<Rightarrow> path \<Rightarrow> string \<Rightarrow> path \<Rightarrow> (exn + bool) \<times> state" where
  "generate_audio_chunk e w text reference_audio reference_text output_path =
     (case (if \<not> f5tts_model w then load_f5tts_model e w else (Inr (), w)) of
        (Inl err, w1) \<Rightarrow> (Inl err, w1)
      | (Inr u, w1) \<Rightarrow>
          (let w2 = w1\<lparr>infer_calls := Suc (infer_calls w1)\<rparr> in
           case infer e (infer_calls w1) reference_audio reference_text text of
             Inl err \<Rightarrow> (Inr False, w2)
           | Inr audio_data \<Rightarrow>
               (case sf_write e w2 output_path audio_data 24000 of
                  (Inl err, w3) \<Rightarrow> (Inr False, w3)
                | (Inr u', w3) \<Rightarrow> (Inr True, w3))))"

section \<open>AudioProcessor.merge_audio_files\<close>

text \<open>
  The \<open>for audio_file in audio_files\<close> loop: each file is read and its samples appended;
  \<open>sr\<close> is the rate of the file read last (unbound before the first read).
\<close>

fun read_segments ::
  "state \<Rightarrow> path list \<Rightarrow> int list list \<Rightarrow> nat option \<Rightarrow> exn + (int list list \<times> nat option)" where
  "read_segments w [] audio_segments sr = Inr (audio_segments, sr)"
| "read_segments w (audio_file # rest) audio_segments sr =
     (case sf_read w audio_file of
        Inl err \<Rightarrow> Inl err
      | Inr (audio, sr') \<Rightarrow> read_segments w rest (audio_segments @ [audio]) (Some sr'))"

text \<open>
  The whole body is inside \<open>try\<close>: a read, \<open>np.concatenate\<close> or the write that raises is
  answered with \<open>False\<close>. \<open>np.concatenate\<close> raises on an empty list of arrays.
\<close>

definition merge_audio_files :: "env \<Rightarrow> state \<Rightarrow> path list \<Rightarrow> path \<Rightarrow> bool \<times> state" where
  "merge_audio_files e w audio_files output_path =
     (case read_segments w audio_files [] None of
        Inl err \<Rightarrow> (False, w)
      | Inr (audio_segments, sr) \<Rightarrow>
          (if audio_segments = [] then (False, w)
           else (case concatenate_raises e audio_segments of
                   Some err \<Rightarrow> (False, w)
                 | None \<Rightarrow>
                     (case sr of
                        None \<Rightarrow> (False, w)
                      | Some samplerate \<Rightarrow>
                          (case sf_write e w output_path (concat audio_segments) samplerate of
                             (Inl err, w1) \<Rightarrow> (False, w1)
                           | (Inr u, w1) \<Rightarrow> (True, w1))))))"

section \<open>AudioProcessor.process_script\<close>

text \<open>
  The \<open>for i, chunk in enumerate(chunks)\<close> loop. A chunk whose generation answers \<open>False\<close>
  is skipped; an exception leaves the loop and the function.
\<close>

fun generate_chunks ::
  "env \<Rightarrow> string \<Rightarrow> path \<Rightarrow> string \<Rightarrow> bool \<Rightarrow> string option \<Rightarrow> nat \<Rightarrow> string list
     \<Rightarrow> path list \<Rightarrow> state \<Rightarrow> (exn + path list) \<times> state" where
  "generate_chunks e script_name reference_audio reference_text upload_to_drive drive_folder_id
       i [] generated_files w = (Inr generated_files, w)"
| "generate_chunks e script_name reference_audio reference_text upload_to_drive drive_folder_id
       i (chunk # rest) generated_files w =
     (let chunk_output = temp_dir e @ [chunk_file_name script_name i] in
      case generate_audio_chunk e w chunk reference_audio reference_text chunk_output of
        (Inl err, w1) \<Rightarrow> (Inl err, w1)
      | (Inr ok, w1) \<Rightarrow>
          if ok then
            generate_chunks e script_name reference_audio reference_text upload_to_drive
              drive_folder_id (Suc i) rest (generated_files @ [chunk_output])
              (if upload_to_drive \<and> drive_manager w1
               then upload_file w1 chunk_output drive_folder_id else w1)
          else
            generate_chunks e script_name reference_audio reference_text upload_to_drive
              drive_folder_id (Suc i) rest generated_files w1)"

text \<open>
  The result is \<open>None\<close> when the function does not return, \<open>Some (Inl err, w)\<close> when it
  raises \<open>err\<close>, and \<open>Some (Inr generated_files, w)\<close> when it returns the list. What the
  function prints and the pause after each segment are left out.
\<close>

definition process_script ::
  "env \<Rightarrow> state \<Rightarrow> path \<Rightarrow> path \<Rightarrow> string \<Rightarrow> bool \<Rightarrow> string option
     \<Rightarrow> ((exn + path list) \<times> state) option" where
  "process_script e w script_path reference_audio reference_text upload_to_drive drive_folder_id =
     (case read_text w script_path of
        Inl err \<Rightarrow> Some (Inl err, w)
      | Inr raw \<Rightarrow>
          (let script_text = strip raw in
           case chunk_text script_text 500 of
             None \<Rightarrow> None
           | Some chunks \<Rightarrow>
               (let script_name = path_stem script_path in
                case generate_chunks e script_name reference_audio reference_text
                       upload_to_drive drive_folder_id 0 chunks [] w of
                  (Inl err, w1) \<Rightarrow> Some (Inl err, w1)
                | (Inr generated_files, w1) \<Rightarrow>
                    if generated_files \<noteq> [] then
                      (let final_output = output_dir e @ [script_name @ ''_complete.wav'']
                       in case merge_audio_files e w1 generated_files final_output of
                            (True, w2) \<Rightarrow>
                              Some (Inr (generated_files @ [final_output]),
                                    if upload_to_drive \<and> drive_manager w2
                                    then upload_file w2 final_output drive_folder_id else w2)
                          | (False, w2) \<Rightarrow> Some (Inr generated_files, w2))
                    else Some (Inr generated_files, w1))))"

section \<open>run_pipeline: the loop over the scripts\<close>

text \<open>
  The configuration is the JSON object of \<open>config.json\<close>; a key that is absent is \<open>None\<close>.
  Of the keys the example configuration lists, the part of \<open>run_pipeline\<close> modelled here
  (from "Set Drive manager for auto-upload" to the end of the loop) reads \<open>auto_upload\<close>
  and \<open>output_folder_id\<close>.
\<close>

record config =
  auto_upload :: "bool option"
  output_folder_id :: "string option"
  chunk_size :: "int option"

definition config_get :: "'a option \<Rightarrow> 'a \<Rightarrow> 'a" where
  "config_get v d = (case v of None \<Rightarrow> d | Some x \<Rightarrow> x)"

text \<open>What the loop prints for a script: how many files it generated, or that it failed.\<close>

datatype outcome = Complete path nat | Failed path exn

fun run_scripts ::
  "env \<Rightarrow> config \<Rightarrow> path \<Rightarrow> string \<Rightarrow> path list \<Rightarrow> state \<times> path list \<times> outcome list
     \<Rightarrow> (state \<times> path list \<times> outcome list) option" where
  "run_scripts e cfg reference_audio_path reference_text [] st = Some st"
| "run_scripts e cfg reference_audio_path reference_text (script_file # rest)
       (w, all_generated_files, printed) =
     (case process_script e w script_file reference_audio_path reference_text
             (config_get (auto_upload cfg) True) (output_folder_id cfg) of
        None \<Rightarrow> None
      | Some (Inr generated_files, w1) \<Rightarrow>
          run_scripts e cfg reference_audio_path reference_text rest
            (w1, all_generated_files @ generated_files,
             printed @ [Complete script_file (length generated_files)])
      | Some (Inl err, w1) \<Rightarrow>
          run_scripts e cfg reference_audio_path reference_text rest
            (w1, all_generated_files, printed @ [Failed script_file err]))"

definition run_pipeline ::
  "env \<Rightarrow> config \<Rightarrow> state \<Rightarrow> path \<Rightarrow> string \<Rightarrow> path list
     \<Rightarrow> (state \<times> path list \<times> outcome list) option" where
  "run_pipeline e cfg w reference_audio_path reference_text script_files =
     (let w1 = (if config_get (auto_upload cfg) True then w\<lparr>drive_manager := True\<rparr> else w)
      in run_scripts e cfg reference_audio_path reference_text script_files (w1, [], []))"

section \<open>Successful segments\<close>

definition chunk_output_path :: "env \<Rightarrow> string \<Rightarrow> nat \<Rightarrow> path" where
  "chunk_output_path e script_name i = temp_dir e @ [chunk_file_name script_name i]"

definition final_output_path :: "env \<Rightarrow> string \<Rightarrow> path" where
  "final_output_path e script_name = output_dir e @ [script_name @ ''_complete.wav'']"

text \<open>
  The segments whose \<open>infer\<close> call returns samples, each with its index, its samples and
  what the write of its chunk file does, in the order of the segments. The \<open>infer\<close> call
  numbered \<open>n\<close> is the one for the segment with index \<open>i\<close>, the first of \<open>chunks\<close>; the
  write numbered \<open>k\<close> is the next one to be made.
\<close>

fun write_attempts ::
  "env \<Rightarrow> path \<Rightarrow> string \<Rightarrow> string \<Rightarrow> nat \<Rightarrow> nat \<Rightarrow> nat \<Rightarrow> string list
     \<Rightarrow> (nat \<times> int list \<times> write_result) list" where
  "write_attempts e reference_audio reference_text script_name n k i [] = []"
| "write_attempts e reference_audio reference_text script_name n k i (chunk # rest) =
     (case infer e n reference_audio reference_text chunk of
        Inl err \<Rightarrow>
          write_attempts e reference_audio reference_text script_name (Suc n) k (Suc i) rest
      | Inr audio \<Rightarrow>
          (i, audio, sf_write_result e k (chunk_output_path e script_name i) audio 24000)
          # write_attempts e reference_audio reference_text script_name (Suc n) (Suc k) (Suc i)
              rest)"

text \<open>
  The successful segments: those whose \<open>infer\<close> call returns samples and whose chunk file is
  written, each with its index and its samples.
\<close>

definition successes ::
  "env \<Rightarrow> path \<Rightarrow> string \<Rightarrow> string \<Rightarrow> nat \<Rightarrow> nat \<Rightarrow> nat \<Rightarrow> string list \<Rightarrow> (nat \<times> int list) list" where
  "successes e reference_audio reference_text script_name n k i chunks =
     map (\<lambda>t. (fst t, fst (snd t)))
       (filter (\<lambda>t. snd (snd t) = Written)
          (write_attempts e reference_audio reference_text script_name n k i chunks))"

text \<open>What a run that returned made: its result, and what a path holds afterwards.\<close>

definition result_of :: "('a \<times> state) option \<Rightarrow> 'a option" where
  "result_of r = map_option fst r"

definition disk_after :: "('a \<times> state) option \<Rightarrow> path \<Rightarrow> content option" where
  "disk_after r p = (case r of None \<Rightarrow> None | Some (x, w) \<Rightarrow> files w p)"

text \<open>The number a string of decimal digits denotes.\<close>

definition digits_value :: "string \<Rightarrow> nat" where
  "digits_value s = foldl (\<lambda>a c. 10 * a + (of_char c - 48)) 0 s"

section \<open>Concrete inputs\<close>

text \<open>Collaborators and states used as concrete inputs.\<close>

definition infer_fails_third :: "nat \<Rightarrow> path \<Rightarrow> string \<Rightarrow> string \<Rightarrow> exn + int list" where
  "infer_fails_third n ref_file ref_text gen_text =
     (if n = 2 then Inl InferenceError else Inr [int n])"

definition writes_succeed :: "nat \<Rightarrow> path \<Rightarrow> int list \<Rightarrow> nat \<Rightarrow> write_result" where
  "writes_succeed n file data samplerate = Written"

text \<open>The first write raises and leaves a file without samples.\<close>

definition first_write_fails :: "nat \<Rightarrow> path \<Rightarrow> int list \<Rightarrow> nat \<Rightarrow> write_result" where
  "first_write_fails n file data samplerate =
     (if n = 0 then WriteRaises SoundFileError (Some (Audio [] samplerate)) else Written)"

text \<open>The fifth write raises and leaves nothing.\<close>

definition fifth_write_fails :: "nat \<Rightarrow> path \<Rightarrow> int list \<Rightarrow> nat \<Rightarrow> write_result" where
  "fifth_write_fails n file data samplerate =
     (if n = 4 then WriteRaises SoundFileError None else Written)"

definition concatenate_works :: "int list list \<Rightarrow> exn option" where
  "concatenate_works arrays = None"

definition working_env :: env where
  "working_env = \<lparr>base_dir = [''project''], load_f5tts = Inr (), infer = infer_fails_third,
                   sf_write_result = writes_succeed, concatenate_raises = concatenate_works\<rparr>"

definition broken_env :: env where
  "broken_env = \<lparr>base_dir = [''project''], load_f5tts = Inl ModelLoadError,
                  infer = infer_fails_third, sf_write_result = writes_succeed,
                  concatenate_raises = concatenate_works\<rparr>"

definition full_disk_env :: env where
  "full_disk_env = \<lparr>base_dir = [''project''], load_f5tts = Inr (), infer = infer_fails_third,
                     sf_write_result = first_write_fails, concatenate_raises = concatenate_works\<rparr>"

definition merge_fails_env :: env where
  "merge_fails_env = \<lparr>base_dir = [''project''], load_f5tts = Inr (), infer = infer_fails_third,
                       sf_write_result = fifth_write_fails,
                       concatenate_raises = concatenate_works\<rparr>"

definition empty_state :: state where
  "empty_state = \<lparr>files = Map.empty, f5tts_model = False, drive_manager = False,
                   infer_calls = 0, write_calls = 0, uploads = []\<rparr>"

text \<open>A disk with two audio files.\<close>

definition two_files_state :: state where
  "two_files_state = \<lparr>files = [[''a.wav''] \<mapsto> Audio [1, 2] 24000, [''b.wav''] \<mapsto> Audio [3] 24000],
                       f5tts_model = True, drive_manager = False, infer_calls = 0,
                       write_calls = 0, uploads = []\<rparr>"

text \<open>
  A script of five sentences of 500 characters each (the last one without the space after
  its full stop), on disk as \<open>scripts/talk.txt\<close>.
\<close>

definition sentence :: string where
  "sentence = replicate 498 CHR ''a'' @ ''. ''"

definition last_sentence :: string where
  "last_sentence = replicate 498 CHR ''a'' @ ''.''"

definition five_sentences :: string where
  "five_sentences = sentence @ sentence @ sentence @ sentence @ last_sentence"

definition script_state :: state where
  "script_state = \<lparr>files = [[''scripts'', ''talk.txt''] \<mapsto> Text five_sentences],
                    f5tts_model = False, drive_manager = False, infer_calls = 0,
                    write_calls = 0, uploads = []\<rparr>"

text \<open>
  A run over a short script \<open>scripts/hello.txt\<close>, with a configuration that asks for
  segments of 3 characters and no uploads.
\<close>

definition hello_state :: state where
  "hello_state = \<lparr>files = [[''scripts'', ''hello.txt''] \<mapsto> Text ''abcdef''],
                   f5tts_model = False, drive_manager = False, infer_calls = 0,
                   write_calls = 0, uploads = []\<rparr>"

definition small_chunk_config :: config where
  "small_chunk_config = \<lparr>auto_upload = Some False, output_folder_id = None, chunk_size = Some 3\<rparr>"

section \<open>Facts about the string primitives\<close>

lemma rfind_from_none:
  "rfind_from s d k = - 1 \<longleftrightarrow> (\<forall>i\<le>k. take (length d) (drop i s) \<noteq> d)"
  by (induction k) (auto simp: le_Suc_eq)

lemma rfind_from_some:
  "rfind_from s d k \<noteq> - 1 \<Longrightarrow>
   \<exists>i\<le>k. rfind_from s d k = int i \<and> take (length d) (drop i s) = d
     \<and> (\<forall>j. i < j \<and> j \<le> k \<longrightarrow> take (length d) (drop j s) \<noteq> d)"
proof (induction k)
  case 0
  then show ?case by (auto split: if_splits)
next
  case (Suc k)
  show ?case
  proof (cases "take (length d) (drop (Suc k) s) = d")
    case True
    then show ?thesis by auto
  next
    case False
    with Suc.prems have "rfind_from s d k \<noteq> - 1" by simp
    from Suc.IH [OF this] obtain i where i: "i \<le> k" "rfind_from s d k = int i"
      "take (length d) (drop i s) = d"
      "\<forall>j. i < j \<and> j \<le> k \<longrightarrow> take (length d) (drop j s) \<noteq> d" by blast
    have "\<forall>j. i < j \<and> j \<le> Suc k \<longrightarrow> take (length d) (drop j s) \<noteq> d"
      using i(4) False by (auto simp: le_Suc_eq)
    with i False show ?thesis by auto
  qed
qed

lemma occurs_at_bound: "occurs_at s d i \<Longrightarrow> length d \<le> length s \<and> i \<le> length s - length d"
  by (auto simp: occurs_at_def)

lemma take_drop_fits:
  assumes "take (length d) (drop i s) = d" "i \<le> length s - length d" "length d \<le> length s"
  shows "occurs_at s d i"
  using assms by (simp add: occurs_at_def)

lemma rfind_none: "rfind s d = - 1 \<longleftrightarrow> (\<forall>i. \<not> occurs_at s d i)"
proof (cases "length d \<le> length s")
  case True
  show ?thesis
  proof
    assume "rfind s d = - 1"
    with True have "\<forall>i\<le>length s - length d. take (length d) (drop i s) \<noteq> d"
      by (simp add: rfind_def rfind_from_none)
    then show "\<forall>i. \<not> occurs_at s d i"
      using occurs_at_bound occurs_at_def by blast
  next
    assume "\<forall>i. \<not> occurs_at s d i"
    then have "\<forall>i\<le>length s - length d. take (length d) (drop i s) \<noteq> d"
      using True take_drop_fits by blast
    with True show "rfind s d = - 1"
      by (simp add: rfind_def rfind_from_none)
  qed
next
  case False
  then show ?thesis
    using occurs_at_bound by (auto simp: rfind_def)
qed

lemma rfind_some:
  assumes "rfind s d \<noteq> - 1"
  shows "\<exists>i. rfind s d = int i \<and> occurs_at s d i \<and> (\<forall>j. occurs_at s d j \<longrightarrow> j \<le> i)"
proof -
  from assms have le: "length d \<le> length s"
    by (auto simp: rfind_def split: if_splits)
  with assms have "rfind_from s d (length s - length d) \<noteq> - 1"
    by (simp add: rfind_def)
  from rfind_from_some [OF this] obtain i where i: "i \<le> length s - length d"
    "rfind_from s d (length s - length d) = int i" "take (length d) (drop i s) = d"
    "\<forall>j. i < j \<and> j \<le> length s - length d \<longrightarrow> take (length d) (drop j s) \<noteq> d"
    by blast
  have occ: "occurs_at s d i"
    using i(1,3) le by (rule_tac take_drop_fits) auto
  have "j \<le> i" if "occurs_at s d j" for j
  proof (rule ccontr)
    assume "\<not> j \<le> i"
    then have "i < j" by simp
    moreover from that have "j \<le> length s - length d" "take (length d) (drop j s) = d"
      using occurs_at_bound by (auto simp: occurs_at_def)
    ultimately show False using i(4) by blast
  qed
  with occ i(2) le show ?thesis
    by (auto simp: rfind_def)
qed

lemma strip_Nil_iff: "strip s = [] \<longleftrightarrow> (\<forall>c\<in>set s. isspace c)"
proof -
  have "strip s = [] \<longleftrightarrow> (\<forall>c\<in>set (dropWhile isspace s). isspace c)"
    by (simp add: strip_def dropWhile_eq_Nil_conv)
  also have "\<dots> \<longleftrightarrow> dropWhile isspace s = []"
  proof
    assume a: "\<forall>c\<in>set (dropWhile isspace s). isspace c"
    show "dropWhile isspace s = []"
    proof (rule ccontr)
      assume ne: "dropWhile isspace s \<noteq> []"
      then have "\<not> isspace (hd (dropWhile isspace s))" by (rule hd_dropWhile)
      moreover from ne have "hd (dropWhile isspace s) \<in> set (dropWhile isspace s)" by simp
      ultimately show False using a by blast
    qed
  qed (auto dest: set_dropWhileD)
  also have "\<dots> \<longleftrightarrow> (\<forall>c\<in>set s. isspace c)"
    by (simp add: dropWhile_eq_Nil_conv)
  finally show ?thesis .
qed

lemma py_slice_inside:
  assumes "0 \<le> a" "a \<le> b" "b \<le> int (length s)"
  shows "py_slice s a b = take (nat b - nat a) (drop (nat a) s)"
proof -
  from assms have "nat a \<le> length s" "nat b \<le> length s" by linarith+
  with assms show ?thesis
    by (simp add: py_slice_def slice_index_def Let_def min_def)
qed

lemma py_slice_from_inside:
  assumes "0 \<le> a" "a \<le> int (length s)"
  shows "py_slice_from s a = drop (nat a) s"
proof -
  from assms have "nat a \<le> length s" by linarith
  with assms show ?thesis
    by (simp add: py_slice_from_def slice_index_def min_def)
qed

lemma py_slice_to_end:
  assumes "0 \<le> a" "a \<le> int (length s)"
  shows "py_slice s a (int (length s)) = drop (nat a) s"
  using assms by (simp add: py_slice_inside)

lemma py_slice_length:
  assumes "0 \<le> a" "a \<le> b" "b \<le> int (length s)"
  shows "length (py_slice s a b) = nat (b - a)"
  using assms by (simp add: py_slice_inside)

lemma py_slice_append_drop:
  assumes "0 \<le> a" "a \<le> b" "b \<le> int (length s)"
  shows "py_slice s a b @ drop (nat b) s = drop (nat a) s"
proof -
  have eq: "py_slice s a b = take (nat b - nat a) (drop (nat a) s)"
    by (rule py_slice_inside [OF assms])
  have "nat b = nat a + (nat b - nat a)" using assms by linarith
  then have "drop (nat b) s = drop (nat b - nat a) (drop (nat a) s)"
    by (metis add.commute drop_drop)
  then show ?thesis
    unfolding eq by (simp only: append_take_drop_id)
qed

section \<open>Facts about the delimiter search\<close>

lemma delimiters_length: "d \<in> set delimiters \<Longrightarrow> length d = 2"
  by (auto simp: delimiters_def)

lemma find_sentence_end_none:
  "(\<forall>d\<in>set ds. rfind w d = - 1) \<Longrightarrow> find_sentence_end w cur e ds = e"
  by (induction ds) (auto simp: Let_def)

lemma find_sentence_end_first:
  "\<exists>d\<in>set ds. rfind w d \<noteq> - 1 \<Longrightarrow>
   \<exists>pre d post. ds = pre @ d # post \<and> (\<forall>d'\<in>set pre. rfind w d' = - 1) \<and> rfind w d \<noteq> - 1
     \<and> find_sentence_end w cur e ds = cur + rfind w d + int (length d)"
proof (induction ds)
  case Nil
  then show ?case by simp
next
  case (Cons a ds)
  show ?case
  proof (cases "rfind w a = - 1")
    case False
    then have "a # ds = [] @ a # ds \<and> (\<forall>d'\<in>set []. rfind w d' = - 1) \<and> rfind w a \<noteq> - 1
      \<and> find_sentence_end w cur e (a # ds) = cur + rfind w a + int (length a)"
      by (simp add: Let_def)
    then show ?thesis by blast
  next
    case True
    with Cons.prems have "\<exists>d\<in>set ds. rfind w d \<noteq> - 1" by auto
    from Cons.IH [OF this] obtain pre d post where h: "ds = pre @ d # post"
      "\<forall>d'\<in>set pre. rfind w d' = - 1" "rfind w d \<noteq> - 1"
      "find_sentence_end w cur e ds = cur + rfind w d + int (length d)" by blast
    from h True have "a # ds = (a # pre) @ d # post \<and> (\<forall>d'\<in>set (a # pre). rfind w d' = - 1)
      \<and> rfind w d \<noteq> - 1
      \<and> find_sentence_end w cur e (a # ds) = cur + rfind w d + int (length d)"
      by (simp add: Let_def)
    then show ?thesis by blast
  qed
qed

lemma next_end_pos_hard_cut:
  assumes "\<forall>d\<in>set delimiters. rfind (py_slice text cur (cur + m)) d = - 1"
  shows "next_end_pos text m cur = cur + m"
  using assms by (simp add: next_end_pos_def Let_def find_sentence_end_none)

lemma next_end_pos_marker:
  assumes "\<exists>d\<in>set delimiters. rfind (py_slice text cur (cur + m)) d \<noteq> - 1"
  shows "\<exists>pre d post i. delimiters = pre @ d # post
     \<and> (\<forall>d'\<in>set pre. \<forall>j. \<not> occurs_at (py_slice text cur (cur + m)) d' j)
     \<and> occurs_at (py_slice text cur (cur + m)) d i
     \<and> (\<forall>j. occurs_at (py_slice text cur (cur + m)) d j \<longrightarrow> j \<le> i)
     \<and> next_end_pos text m cur = cur + int i + int (length d)"
proof -
  let ?w = "py_slice text cur (cur + m)"
  from find_sentence_end_first [OF assms, of cur "cur + m"]
  obtain pre d post where h: "delimiters = pre @ d # post"
    "\<forall>d'\<in>set pre. rfind ?w d' = - 1" "rfind ?w d \<noteq> - 1"
    "find_sentence_end ?w cur (cur + m) delimiters = cur + rfind ?w d + int (length d)"
    by blast
  from rfind_some [OF h(3)] obtain i where i: "rfind ?w d = int i" "occurs_at ?w d i"
    "\<forall>j. occurs_at ?w d j \<longrightarrow> j \<le> i" by blast
  have "\<forall>d'\<in>set pre. \<forall>j. \<not> occurs_at ?w d' j"
    using h(2) by (simp add: rfind_none)
  moreover have "next_end_pos text m cur = cur + int i + int (length d)"
    using h(4) i(1) by (simp add: next_end_pos_def Let_def)
  ultimately show ?thesis
    using h(1) i(2,3) by blast
qed

lemma next_end_pos_bounds:
  assumes "1 \<le> m" "0 \<le> cur" "cur + m < int (length text)"
  shows "cur < next_end_pos text m cur \<and> next_end_pos text m cur \<le> cur + m"
proof (cases "\<exists>d\<in>set delimiters. rfind (py_slice text cur (cur + m)) d \<noteq> - 1")
  case True
  from next_end_pos_marker [OF True] obtain pre d post i where h:
    "delimiters = pre @ d # post" "occurs_at (py_slice text cur (cur + m)) d i"
    "next_end_pos text m cur = cur + int i + int (length d)" by blast
  from h(1) have "d \<in> set delimiters" by (metis in_set_conv_decomp)
  then have d: "length d = 2" by (rule delimiters_length)
  have "length (py_slice text cur (cur + m)) = nat m"
    using assms by (simp add: py_slice_length)
  with h(2) d have "i + 2 \<le> nat m" by (simp add: occurs_at_def)
  with h(3) d assms show ?thesis by simp
next
  case False
  then have "next_end_pos text m cur = cur + m"
    by (simp add: next_end_pos_hard_cut)
  with assms show ?thesis by simp
qed

section \<open>One iteration of the loop\<close>

lemma chunk_loop_step:
  assumes "current_pos < int (length text)" "current_pos + max_chars < int (length text)"
  shows "chunk_loop text max_chars current_pos chunks =
         chunk_loop text max_chars (next_end_pos text max_chars current_pos)
           (chunks @ [strip (py_slice text current_pos (next_end_pos text max_chars current_pos))])"
  using assms by (subst chunk_loop.simps) (simp add: Let_def next_end_pos_def)

lemma chunk_loop_last:
  assumes "current_pos < int (length text)" "int (length text) \<le> current_pos + max_chars"
  shows "chunk_loop text max_chars current_pos chunks =
         Some (chunks @ [strip (py_slice_from text current_pos)])"
  using assms by (subst chunk_loop.simps) (simp add: Let_def)

lemma chunk_loop_done:
  assumes "\<not> current_pos < int (length text)"
  shows "chunk_loop text max_chars current_pos chunks = Some chunks"
  using assms by (subst chunk_loop.simps) simp

lemma chunk_spans_loop_step:
  assumes "current_pos < int (length text)" "current_pos + max_chars < int (length text)"
  shows "chunk_spans_loop text max_chars current_pos spans =
         chunk_spans_loop text max_chars (next_end_pos text max_chars current_pos)
           (spans @ [(current_pos, next_end_pos text max_chars current_pos)])"
  using assms by (subst chunk_spans_loop.simps) (simp add: Let_def next_end_pos_def)

lemma chunk_spans_loop_last:
  assumes "current_pos < int (length text)" "int (length text) \<le> current_pos + max_chars"
  shows "chunk_spans_loop text max_chars current_pos spans =
         Some (spans @ [(current_pos, int (length text))])"
  using assms by (subst chunk_spans_loop.simps) (simp add: Let_def)

lemma chunk_spans_loop_done:
  assumes "\<not> current_pos < int (length text)"
  shows "chunk_spans_loop text max_chars current_pos spans = Some spans"
  using assms by (subst chunk_spans_loop.simps) simp

section \<open>The loop returns, and what it returns\<close>

lemma loops_return:
  assumes "1 \<le> m" "0 \<le> cur" "cur \<le> int (length text)"
  shows "\<exists>spans. chunk_spans_loop text m cur acc = Some (acc @ spans)
     \<and> chunk_loop text m cur acc' = Some (acc' @ map (\<lambda>sp. strip (span_slice text sp)) spans)
     \<and> contiguous cur spans (int (length text))
     \<and> concat (map (span_slice text) spans) = drop (nat cur) text
     \<and> (\<forall>sp\<in>set spans. 0 \<le> fst sp \<and> fst sp < snd sp \<and> snd sp \<le> int (length text))"
  using assms(2,3)
proof (induction "nat (int (length text) - cur)" arbitrary: cur acc acc' rule: less_induct)
  case less
  consider (finished) "cur = int (length text)"
    | (final) "cur < int (length text)" "int (length text) \<le> cur + m"
    | (step) "cur < int (length text)" "cur + m < int (length text)"
    using less.prems by linarith
  then show ?case
  proof cases
    case finished
    then have "chunk_spans_loop text m cur acc = Some (acc @ [])"
      "chunk_loop text m cur acc' = Some (acc' @ map (\<lambda>sp. strip (span_slice text sp)) [])"
      by (simp_all add: chunk_spans_loop_done chunk_loop_done)
    moreover have "contiguous cur [] (int (length text))"
      "concat (map (span_slice text) []) = drop (nat cur) text"
      using finished by simp_all
    ultimately show ?thesis by fastforce
  next
    case final
    let ?sp = "(cur, int (length text))"
    have "chunk_spans_loop text m cur acc = Some (acc @ [?sp])"
      using final by (simp add: chunk_spans_loop_last)
    moreover have "span_slice text ?sp = drop (nat cur) text"
      "py_slice_from text cur = drop (nat cur) text"
      using less.prems by (simp_all add: span_slice_def py_slice_to_end py_slice_from_inside)
    moreover from this have
      "chunk_loop text m cur acc' = Some (acc' @ map (\<lambda>sp. strip (span_slice text sp)) [?sp])"
      using final by (simp add: chunk_loop_last)
    moreover have "contiguous cur [?sp] (int (length text))" by simp
    moreover have "\<forall>sp\<in>set [?sp]. 0 \<le> fst sp \<and> fst sp < snd sp \<and> snd sp \<le> int (length text)"
      using final less.prems by simp
    moreover have "concat (map (span_slice text) [?sp]) = drop (nat cur) text"
      using \<open>span_slice text ?sp = drop (nat cur) text\<close> by simp
    ultimately show ?thesis by blast
  next
    case step
    let ?e = "next_end_pos text m cur"
    have e: "cur < ?e" "?e \<le> cur + m"
      using next_end_pos_bounds [OF assms(1) less.prems(1) step(2)] by simp_all
    with step less.prems have e': "0 \<le> ?e" "?e \<le> int (length text)" by simp_all
    have "nat (int (length text) - ?e) < nat (int (length text) - cur)"
      using e step by linarith
    from less.hyps [OF this e', of "acc @ [(cur, ?e)]" "acc' @ [strip (py_slice text cur ?e)]"]
    obtain spans where IH:
      "chunk_spans_loop text m ?e (acc @ [(cur, ?e)]) = Some ((acc @ [(cur, ?e)]) @ spans)"
      "chunk_loop text m ?e (acc' @ [strip (py_slice text cur ?e)]) =
         Some ((acc' @ [strip (py_slice text cur ?e)]) @ map (\<lambda>sp. strip (span_slice text sp)) spans)"
      "contiguous ?e spans (int (length text))"
      "concat (map (span_slice text) spans) = drop (nat ?e) text"
      "\<forall>sp\<in>set spans. 0 \<le> fst sp \<and> fst sp < snd sp \<and> snd sp \<le> int (length text)"
      by blast
    let ?r = "(cur, ?e) # spans"
    have "chunk_spans_loop text m cur acc = Some (acc @ ?r)"
      using IH(1) step by (simp add: chunk_spans_loop_step)
    moreover have "chunk_loop text m cur acc' = Some (acc' @ map (\<lambda>sp. strip (span_slice text sp)) ?r)"
      using IH(2) step by (simp add: chunk_loop_step span_slice_def)
    moreover have "contiguous cur ?r (int (length text))"
      using IH(3) by simp
    moreover have "concat (map (span_slice text) ?r) = drop (nat cur) text"
      using IH(4) py_slice_append_drop [of cur "next_end_pos text m cur" "text"] e e' less.prems
      by (simp add: span_slice_def)
    moreover have "\<forall>sp\<in>set ?r. 0 \<le> fst sp \<and> fst sp < snd sp \<and> snd sp \<le> int (length text)"
      using IH(5) e e' less.prems by simp
    ultimately show ?thesis by blast
  qed
qed


lemma chunk_text_returns:
  assumes "1 \<le> max_chars"
  shows "\<exists>spans. chunk_spans text max_chars = Some spans
     \<and> chunk_text text max_chars =
         Some (if int (length text) \<le> max_chars then [text]
               else map (\<lambda>sp. strip (span_slice text sp)) spans)
     \<and> contiguous 0 spans (int (length text))
     \<and> concat (map (span_slice text) spans) = text
     \<and> (int (length text) > max_chars \<longrightarrow>
          (\<forall>sp\<in>set spans. 0 \<le> fst sp \<and> fst sp < snd sp \<and> snd sp \<le> int (length text)))"
proof (cases "int (length text) \<le> max_chars")
  case True
  have "span_slice text (0, int (length text)) = text"
    by (simp add: span_slice_def py_slice_to_end)
  with True show ?thesis
    by (simp add: chunk_spans_def chunk_text_def)
next
  case False
  from loops_return [OF assms, of 0 "text" "[]" "[]"] obtain spans where
    "chunk_spans_loop text max_chars 0 [] = Some spans"
    "chunk_loop text max_chars 0 [] = Some (map (\<lambda>sp. strip (span_slice text sp)) spans)"
    "contiguous 0 spans (int (length text))"
    "concat (map (span_slice text) spans) = text"
    "\<forall>sp\<in>set spans. 0 \<le> fst sp \<and> fst sp < snd sp \<and> snd sp \<le> int (length text)"
    by auto
  with False show ?thesis
    by (simp add: chunk_spans_def chunk_text_def)
qed

section \<open>The loop need not return\<close>

lemma find_sentence_end_empty_window: "find_sentence_end [] cur e delimiters = e"
  by (simp add: delimiters_def rfind_def Let_def)

lemma chunk_loop_stuck:
  assumes "chunk_loop text m cur chunks = Some y"
  shows "\<not> (m = 0 \<and> 0 \<le> cur \<and> cur < int (length text))"
proof (rule chunk_loop.raw_induct
    [where P = "\<lambda>t m c acc y. \<not> (m = 0 \<and> 0 \<le> c \<and> c < int (length t))", OF _ assms])
  fix f :: "string \<Rightarrow> int \<Rightarrow> int \<Rightarrow> string list \<Rightarrow> string list option"
  fix t :: string and m c :: int and acc y :: "string list"
  assume IH: "\<And>t m c acc y. f t m c acc = Some y \<Longrightarrow> \<not> (m = 0 \<and> 0 \<le> c \<and> c < int (length t))"
  assume body: "(if c < int (length t) then
        (let end_pos = c + m in
         if end_pos \<ge> int (length t)
         then Some (acc @ [strip (py_slice_from t c)])
         else
           (let chunk = py_slice t c end_pos;
                end_pos = find_sentence_end chunk c end_pos delimiters
            in f t m end_pos (acc @ [strip (py_slice t c end_pos)])))
      else Some acc) = Some y"
  show "\<not> (m = 0 \<and> 0 \<le> c \<and> c < int (length t))"
  proof
    assume a: "m = 0 \<and> 0 \<le> c \<and> c < int (length t)"
    then have "py_slice t c (c + m) = []"
      by (simp add: py_slice_inside)
    with a body have "f t m c (acc @ [strip []]) = Some y"
      by (simp add: Let_def find_sentence_end_empty_window)
    from IH [OF this] a show False by simp
  qed
qed

text \<open>With \<open>max_chars = 0\<close> and a text that is not empty, \<open>chunk_text\<close> does not return.\<close>

lemma chunk_text_zero_diverges:
  assumes "text \<noteq> []"
  shows "chunk_text text 0 = None"
proof (rule ccontr)
  assume "chunk_text text 0 \<noteq> None"
  then obtain y where "chunk_text text 0 = Some y" by blast
  with assms have "chunk_loop text 0 0 [] = Some y"
    by (simp add: chunk_text_def)
  from chunk_loop_stuck [OF this] assms show False by simp
qed

section \<open>Short texts\<close>

text \<open>
  C6 (as the code has it). A text of at most \<open>max_chars\<close> characters is returned as the
  single chunk \<open>[text]\<close>, unchanged: the early return does not trim. The chunk equals the
  trimmed input exactly when trimming leaves the text as it is.
\<close>

theorem chunk_text_short:
  assumes "int (length text) \<le> max_chars"
  shows "chunk_text text max_chars = Some [text]
         \<and> (chunk_text text max_chars = Some [strip text] \<longleftrightarrow> strip text = text)"
  using assms by (auto simp: chunk_text_def)

theorem chunk_text_short_witness:
  "int (length '' a'') \<le> 500 \<and> chunk_text '' a'' 500 = Some ['' a'']"
  using chunk_text_short [of "'' a''" 500] by simp

text \<open>
  C6 as the claim states it fails: a short text with leading whitespace comes back
  untrimmed.
\<close>

theorem chunk_text_short_untrimmed_counterexample:
  "int (length '' a'') \<le> 500 \<and> strip '' a'' = ''a''
   \<and> chunk_text '' a'' 500 \<noteq> Some [strip '' a'']"
  by (simp add: chunk_text_def strip_def isspace_def)

section \<open>Coverage\<close>

text \<open>
  C1. For every text and every \<open>max_chars \<ge> 1\<close> the loop returns; the spans it records
  are the slices whose trimmed form \<open>chunk_text\<close> returns; every span starts at the
  boundary where the previous one ended, the first at 0 and the last ending at
  \<open>len(text)\<close>; and the untrimmed slices concatenate to the text itself.
\<close>

theorem chunk_text_coverage:
  assumes "1 \<le> max_chars"
  shows "\<exists>spans. chunk_spans text max_chars = Some spans
     \<and> chunk_text text max_chars =
         Some (if int (length text) \<le> max_chars then [text]
               else map (\<lambda>sp. strip (span_slice text sp)) spans)
     \<and> contiguous 0 spans (int (length text))
     \<and> concat (map (span_slice text) spans) = text"
  using chunk_text_returns [OF assms, of "text"] by blast

theorem chunk_text_coverage_witness:
  "(1::int) \<le> 20
   \<and> chunk_spans ''Hello world. This is a test sentence that continues for a while.'' 20
       = Some [(0, 13), (13, 33), (33, 53), (53, 64)]
   \<and> chunk_text ''Hello world. This is a test sentence that continues for a while.'' 20
       = Some [''Hello world.'', ''This is a test sente'', ''nce that continues f'', ''or a while.'']
   \<and> ''Hello world. '' @ ''This is a test sente'' @ ''nce that continues f'' @ ''or a while.''
       = ''Hello world. This is a test sentence that continues for a while.''"
proof -
  let ?T = "''Hello world. This is a test sentence that continues for a while.''"
  have sp: "chunk_spans ?T 20 = Some [(0, 13), (13, 33), (33, 53), (53, 64)]"
    by code_simp
  have sl: "map (span_slice ?T) [(0, 13), (13, 33), (33, 53), (53, 64)]
              = [''Hello world. '', ''This is a test sente'', ''nce that continues f'', ''or a while.'']"
    by code_simp
  have st: "map strip [''Hello world. '', ''This is a test sente'', ''nce that continues f'', ''or a while.'']
              = [''Hello world.'', ''This is a test sente'', ''nce that continues f'', ''or a while.'']"
    by code_simp
  from chunk_text_coverage [of 20 ?T] obtain spans where h:
    "chunk_spans ?T 20 = Some spans"
    "chunk_text ?T 20 = Some (if int (length ?T) \<le> 20 then [?T]
        else map (\<lambda>sp. strip (span_slice ?T sp)) spans)"
    "concat (map (span_slice ?T) spans) = ?T"
    by auto
  from h(1) sp have spans: "spans = [(0, 13), (13, 33), (33, 53), (53, 64)]" by simp
  have "map (\<lambda>sp. strip (span_slice ?T sp)) spans = map strip (map (span_slice ?T) spans)"
    by simp
  with h(2) have "chunk_text ?T 20 = Some (map strip (map (span_slice ?T) spans))"
    by simp
  then have ct: "chunk_text ?T 20
      = Some [''Hello world.'', ''This is a test sente'', ''nce that continues f'', ''or a while.'']"
    unfolding spans sl st .
  from h(3) have "concat [''Hello world. '', ''This is a test sente'', ''nce that continues f'', ''or a while.''] = ?T"
    unfolding spans sl .
  then show ?thesis using sp ct by simp
qed

section \<open>Empty chunks\<close>

text \<open>
  C7 as the claim states it fails: a window of spaces is trimmed to the empty chunk, and
  the loop appends it.
\<close>

theorem chunk_text_empty_chunk_counterexample:
  "(1::int) \<le> 2 \<and> chunk_text ''a   b'' 2 = Some [''a'', [], ''b'']"
  by code_simp

text \<open>
  C7 (as the code has it). For \<open>max_chars \<ge> 1\<close> there is one chunk per recorded span, and
  a chunk is non-empty whenever its untrimmed slice holds a character that is not
  whitespace. When the text is longer than \<open>max_chars\<close>, every untrimmed slice is non-empty
  and a chunk is empty exactly when its slice is whitespace only.
\<close>

theorem chunk_text_nonempty_chunks:
  assumes "1 \<le> max_chars"
  shows "\<exists>spans chunks. chunk_spans text max_chars = Some spans
     \<and> chunk_text text max_chars = Some chunks
     \<and> length chunks = length spans
     \<and> (\<forall>i<length chunks.
          ((\<exists>c\<in>set (span_slice text (spans ! i)). \<not> isspace c) \<longrightarrow> chunks ! i \<noteq> [])
          \<and> (int (length text) > max_chars \<longrightarrow>
               span_slice text (spans ! i) \<noteq> []
               \<and> (chunks ! i = [] \<longleftrightarrow> (\<forall>c\<in>set (span_slice text (spans ! i)). isspace c))))"
proof -
  from chunk_text_returns [OF assms, of "text"] obtain spans where h:
    "chunk_spans text max_chars = Some spans"
    "chunk_text text max_chars =
       Some (if int (length text) \<le> max_chars then [text]
             else map (\<lambda>sp. strip (span_slice text sp)) spans)"
    "concat (map (span_slice text) spans) = text"
    "int (length text) > max_chars \<longrightarrow>
       (\<forall>sp\<in>set spans. 0 \<le> fst sp \<and> fst sp < snd sp \<and> snd sp \<le> int (length text))"
    by blast
  show ?thesis
  proof (cases "int (length text) \<le> max_chars")
    case True
    with h(1) have sp: "spans = [(0, int (length text))]"
      by (simp add: chunk_spans_def)
    have "span_slice text (0, int (length text)) = text"
      by (simp add: span_slice_def py_slice_to_end)
    with True h(1,2) sp show ?thesis by auto
  next
    case False
    let ?chunks = "map (\<lambda>sp. strip (span_slice text sp)) spans"
    from False h(2) have ct: "chunk_text text max_chars = Some ?chunks" by simp
    have each: "span_slice text (spans ! i) \<noteq> []
        \<and> (?chunks ! i = [] \<longleftrightarrow> (\<forall>c\<in>set (span_slice text (spans ! i)). isspace c))"
      if i: "i < length spans" for i
    proof -
      from i have "spans ! i \<in> set spans" by simp
      with False h(4) have b: "0 \<le> fst (spans ! i)" "fst (spans ! i) < snd (spans ! i)"
        "snd (spans ! i) \<le> int (length text)" by auto
      then have "length (span_slice text (spans ! i)) = nat (snd (spans ! i) - fst (spans ! i))"
        by (simp add: span_slice_def py_slice_length)
      with b have "span_slice text (spans ! i) \<noteq> []" by auto
      moreover have "?chunks ! i = strip (span_slice text (spans ! i))"
        using i by simp
      ultimately show ?thesis by (simp add: strip_Nil_iff)
    qed
    have "\<forall>i<length ?chunks.
          ((\<exists>c\<in>set (span_slice text (spans ! i)). \<not> isspace c) \<longrightarrow> ?chunks ! i \<noteq> [])
          \<and> (int (length text) > max_chars \<longrightarrow>
               span_slice text (spans ! i) \<noteq> []
               \<and> (?chunks ! i = [] \<longleftrightarrow> (\<forall>c\<in>set (span_slice text (spans ! i)). isspace c)))"
      using each by auto
    with h(1) ct show ?thesis by (metis length_map)
  qed
qed

theorem chunk_text_nonempty_chunks_witness:
  "(1::int) \<le> 2
   \<and> chunk_spans ''a   b'' 2 = Some [(0, 2), (2, 4), (4, 5)]
   \<and> chunk_text ''a   b'' 2 = Some [''a'', [], ''b'']
   \<and> span_slice ''a   b'' (0, 2) = ''a '' \<and> \<not> isspace CHR ''a'' \<and> ''a'' \<noteq> []
   \<and> span_slice ''a   b'' (2, 4) = ''  '' \<and> isspace CHR '' ''"
proof -
  have ev: "chunk_spans ''a   b'' 2 = Some [(0, 2), (2, 4), (4, 5)]"
    "chunk_text ''a   b'' 2 = Some [''a'', [], ''b'']"
    "span_slice ''a   b'' (0, 2) = ''a ''" "span_slice ''a   b'' (2, 4) = ''  ''"
    "\<not> isspace CHR ''a''" "isspace CHR '' ''"
    by code_simp+
  from chunk_text_nonempty_chunks [of 2 "''a   b''"] obtain spans chunks where
    "chunk_spans ''a   b'' 2 = Some spans" "chunk_text ''a   b'' 2 = Some chunks"
    "length chunks = length spans" by auto
  with ev show ?thesis by simp
qed

section \<open>Termination\<close>

text \<open>
  C10. For every text and every \<open>max_chars \<ge> 1\<close>, \<open>chunk_text\<close> returns. An iteration that
  is not the last one continues the loop from \<open>next_end_pos\<close>, which lies strictly after
  the cursor: at least 2 further when one of the markers is found in the window, and
  exactly \<open>max_chars\<close> further when none is.
\<close>

theorem chunk_text_terminates:
  assumes "1 \<le> max_chars"
  shows "(\<exists>chunks. chunk_text text max_chars = Some chunks)
     \<and> (\<forall>cur chunks. 0 \<le> cur \<and> cur + max_chars < int (length text) \<longrightarrow>
          chunk_loop text max_chars cur chunks =
            chunk_loop text max_chars (next_end_pos text max_chars cur)
              (chunks @ [strip (py_slice text cur (next_end_pos text max_chars cur))])
          \<and> cur < next_end_pos text max_chars cur
          \<and> ((\<exists>d\<in>set delimiters. rfind (py_slice text cur (cur + max_chars)) d \<noteq> - 1) \<longrightarrow>
                cur + 2 \<le> next_end_pos text max_chars cur)
          \<and> ((\<forall>d\<in>set delimiters. rfind (py_slice text cur (cur + max_chars)) d = - 1) \<longrightarrow>
                next_end_pos text max_chars cur = cur + max_chars))"
proof -
  have ret: "\<exists>chunks. chunk_text text max_chars = Some chunks"
    using chunk_text_returns [OF assms, of "text"] by blast
  have it: "chunk_loop text max_chars cur chunks =
            chunk_loop text max_chars (next_end_pos text max_chars cur)
              (chunks @ [strip (py_slice text cur (next_end_pos text max_chars cur))])
          \<and> cur < next_end_pos text max_chars cur
          \<and> ((\<exists>d\<in>set delimiters. rfind (py_slice text cur (cur + max_chars)) d \<noteq> - 1) \<longrightarrow>
                cur + 2 \<le> next_end_pos text max_chars cur)
          \<and> ((\<forall>d\<in>set delimiters. rfind (py_slice text cur (cur + max_chars)) d = - 1) \<longrightarrow>
                next_end_pos text max_chars cur = cur + max_chars)"
    if c: "0 \<le> cur" "cur + max_chars < int (length text)" for cur chunks
  proof -
    from c assms have lt: "cur < int (length text)" by simp
    have step: "chunk_loop text max_chars cur chunks =
            chunk_loop text max_chars (next_end_pos text max_chars cur)
              (chunks @ [strip (py_slice text cur (next_end_pos text max_chars cur))])"
      by (rule chunk_loop_step [OF lt c(2)])
    have adv: "cur < next_end_pos text max_chars cur"
      using next_end_pos_bounds [OF assms c] by simp
    have two: "cur + 2 \<le> next_end_pos text max_chars cur"
      if m: "\<exists>d\<in>set delimiters. rfind (py_slice text cur (cur + max_chars)) d \<noteq> - 1"
    proof -
      from next_end_pos_marker [OF m] obtain pre d post i where h:
        "delimiters = pre @ d # post"
        "next_end_pos text max_chars cur = cur + int i + int (length d)" by blast
      from h(1) have "d \<in> set delimiters" by (metis in_set_conv_decomp)
      then have "length d = 2" by (rule delimiters_length)
      with h(2) show ?thesis by simp
    qed
    have cut: "next_end_pos text max_chars cur = cur + max_chars"
      if "\<forall>d\<in>set delimiters. rfind (py_slice text cur (cur + max_chars)) d = - 1"
      using that by (rule next_end_pos_hard_cut)
    from step adv two cut show ?thesis by blast
  qed
  from ret it show ?thesis by blast
qed

theorem chunk_text_terminates_witness:
  "(1::int) \<le> 20
   \<and> chunk_text ''Hello world. This is a test sentence that continues for a while.'' 20
       = Some [''Hello world.'', ''This is a test sente'', ''nce that continues f'', ''or a while.'']
   \<and> (0::int) + 20
       < int (length ''Hello world. This is a test sentence that continues for a while.'')
   \<and> next_end_pos ''Hello world. This is a test sentence that continues for a while.'' 20 0 = 13
   \<and> (0::int) < next_end_pos ''Hello world. This is a test sentence that continues for a while.'' 20 0
   \<and> next_end_pos ''Hello world. This is a test sentence that continues for a while.'' 20 13 = 33"
proof -
  let ?T = "''Hello world. This is a test sentence that continues for a while.''"
  have ev: "chunk_text ?T 20
       = Some [''Hello world.'', ''This is a test sente'', ''nce that continues f'', ''or a while.'']"
    "next_end_pos ?T 20 0 = 13" "next_end_pos ?T 20 13 = 33"
    by code_simp+
  have one: "(1::int) \<le> 20" by simp
  have pre: "(0::int) \<le> 0 \<and> 0 + 20 < int (length ?T)" by simp
  from chunk_text_terminates [OF one, of ?T]
  have "\<forall>cur. 0 \<le> cur \<and> cur + 20 < int (length ?T) \<longrightarrow> cur < next_end_pos ?T 20 cur"
    by blast
  with pre have "(0::int) < next_end_pos ?T 20 0" by blast
  with ev show ?thesis by simp
qed

section \<open>Choice of the boundary\<close>

lemma set_occurrences: "set (occurrences s d) = {j. occurs_at s d j}"
proof -
  have "j < Suc (length s)" if "occurs_at s d j" for j
    using that by (simp add: occurs_at_def)
  then show ?thesis
    unfolding occurrences_def by (auto simp del: upt_Suc)
qed

lemma occurrences_empty: "occurrences s d = [] \<longleftrightarrow> (\<forall>j. \<not> occurs_at s d j)"
proof -
  have "occurrences s d = [] \<longleftrightarrow> set (occurrences s d) = {}" by simp
  then show ?thesis unfolding set_occurrences by blast
qed

lemma last_filter_upt:
  assumes "P i" "i < n" "\<forall>j. P j \<longrightarrow> j \<le> i"
  shows "last (filter P [0..<n]) = i"
proof -
  have "[0..<n] = [0..<i] @ [i] @ [Suc i..<n]"
    using assms(2) by (metis append_Cons append_Nil less_imp_add_positive
        upt_add_eq_append upt_conv_Cons zero_le upt_rec)
  moreover have "filter P [Suc i..<n] = []"
    using assms(3) by (auto simp: filter_empty_conv)
  ultimately show ?thesis using assms(1) by simp
qed

lemma last_occurrences:
  assumes "occurs_at s d i" "\<forall>j. occurs_at s d j \<longrightarrow> j \<le> i"
  shows "last (occurrences s d) = i"
proof -
  from assms(1) have "i < Suc (length s)" by (simp add: occurs_at_def)
  with assms show ?thesis
    unfolding occurrences_def by (intro last_filter_upt) auto
qed

lemma next_end_pos_follows_rule: "marker_boundary text m cur (next_end_pos text m cur)"
proof (cases "\<exists>d\<in>set delimiters. rfind (py_slice text cur (cur + m)) d \<noteq> - 1")
  case True
  let ?w = "py_slice text cur (cur + m)"
  from next_end_pos_marker [OF True] obtain pre d post i where h:
    "delimiters = pre @ d # post"
    "\<forall>d'\<in>set pre. \<forall>j. \<not> occurs_at ?w d' j"
    "occurs_at ?w d i" "\<forall>j. occurs_at ?w d j \<longrightarrow> j \<le> i"
    "next_end_pos text m cur = cur + int i + int (length d)" by blast
  from h(2) have "filter (\<lambda>d. occurrences ?w d \<noteq> []) pre = []"
    by (simp add: filter_empty_conv occurrences_empty)
  moreover from h(3) have "occurrences ?w d \<noteq> []"
    using occurrences_empty by blast
  ultimately have "filter (\<lambda>d. occurrences ?w d \<noteq> []) delimiters
      = d # filter (\<lambda>d. occurrences ?w d \<noteq> []) post"
    unfolding h(1) by simp
  moreover have "last (occurrences ?w d) = i"
    by (rule last_occurrences [OF h(3,4)])
  ultimately show ?thesis
    using h(5) by (simp add: marker_boundary_def Let_def)
next
  case False
  let ?w = "py_slice text cur (cur + m)"
  from False have "\<forall>d\<in>set delimiters. \<forall>j. \<not> occurs_at ?w d j"
    by (simp add: rfind_none)
  then have "filter (\<lambda>d. occurrences ?w d \<noteq> []) delimiters = []"
    by (simp add: filter_empty_conv occurrences_empty)
  moreover from False have "next_end_pos text m cur = cur + m"
    by (simp add: next_end_pos_hard_cut)
  ultimately show ?thesis
    by (simp add: marker_boundary_def Let_def)
qed

lemma spans_follow_rule:
  assumes "1 \<le> m" "0 \<le> cur" "cur \<le> int (length text)"
  shows "\<exists>spans. chunk_spans_loop text m cur acc = Some (acc @ spans)
     \<and> follows_rule text m cur spans"
  using assms(2,3)
proof (induction "nat (int (length text) - cur)" arbitrary: cur acc rule: less_induct)
  case less
  consider (finished) "cur = int (length text)"
    | (final) "cur < int (length text)" "int (length text) \<le> cur + m"
    | (step) "cur < int (length text)" "cur + m < int (length text)"
    using less.prems by linarith
  then show ?case
  proof cases
    case finished
    then have "chunk_spans_loop text m cur acc = Some (acc @ [])"
      "follows_rule text m cur []"
      by (simp_all add: chunk_spans_loop_done)
    then show ?thesis by blast
  next
    case final
    then have "chunk_spans_loop text m cur acc = Some (acc @ [(cur, int (length text))])"
      "follows_rule text m cur [(cur, int (length text))]"
      by (simp_all add: chunk_spans_loop_last)
    then show ?thesis by blast
  next
    case step
    let ?e = "next_end_pos text m cur"
    have e: "cur < ?e" "?e \<le> cur + m"
      using next_end_pos_bounds [OF assms(1) less.prems(1) step(2)] by simp_all
    with step less.prems have e': "0 \<le> ?e" "?e \<le> int (length text)" by simp_all
    have "nat (int (length text) - ?e) < nat (int (length text) - cur)"
      using e step by linarith
    from less.hyps [OF this e', of "acc @ [(cur, ?e)]"] obtain spans where IH:
      "chunk_spans_loop text m ?e (acc @ [(cur, ?e)]) = Some ((acc @ [(cur, ?e)]) @ spans)"
      "follows_rule text m ?e spans" by blast
    have "chunk_spans_loop text m cur acc = Some (acc @ (cur, ?e) # spans)"
      using IH(1) step by (simp add: chunk_spans_loop_step)
    moreover have "follows_rule text m cur ((cur, ?e) # spans)"
      using IH(2) step next_end_pos_follows_rule [of "text" m cur] by simp
    ultimately show ?thesis by blast
  qed
qed

text \<open>
  C3. For a text longer than \<open>max_chars \<ge> 1\<close>, \<open>chunk_text\<close> returns (it has no error to
  raise), and what it returns are the trimmed slices of spans that scan the text from 0 by
  the rule of the specification: in every window \<open>text[cur : cur + max_chars]\<close> that does
  not reach the end of the text, the boundary lies immediately after the rightmost
  occurrence of the first marker, in the order \<open>". ", "! ", "? ", ".\n", "!\n", "?\n"\<close>,
  that occurs in the window at all, and is the hard cut \<open>cur + max_chars\<close> when none occurs.
\<close>

theorem chunk_text_boundary_choice:
  assumes "1 \<le> max_chars" "max_chars < int (length text)"
  shows "delimiters = [''. '', ''! '', ''? '', [CHR ''.'', CHR 0x0A], [CHR ''!'', CHR 0x0A],
                       [CHR ''?'', CHR 0x0A]]
     \<and> (\<exists>spans. chunk_text text max_chars = Some (map (\<lambda>sp. strip (span_slice text sp)) spans)
            \<and> chunk_spans text max_chars = Some spans
            \<and> follows_rule text max_chars 0 spans)"
proof -
  have d: "delimiters = [''. '', ''! '', ''? '', [CHR ''.'', CHR 0x0A], [CHR ''!'', CHR 0x0A],
                       [CHR ''?'', CHR 0x0A]]"
    by (simp add: delimiters_def)
  from chunk_text_returns [OF assms(1), of "text"] assms(2) obtain spans where a:
    "chunk_spans text max_chars = Some spans"
    "chunk_text text max_chars = Some (map (\<lambda>sp. strip (span_slice text sp)) spans)"
    by auto
  from spans_follow_rule [OF assms(1), of 0 "text" "[]"] obtain spans' where b:
    "chunk_spans_loop text max_chars 0 [] = Some spans'" "follows_rule text max_chars 0 spans'"
    by auto
  from a(1) b(1) assms(2) have "spans' = spans"
    by (simp add: chunk_spans_def)
  with a b(2) d show ?thesis by blast
qed

theorem chunk_text_boundary_choice_witness:
  "(1::int) \<le> 20
   \<and> (20::int) < int (length ''Hi! Yes. No. Oh! and then some more text here'')
   \<and> chunk_text ''Hi! Yes. No. Oh! and then some more text here'' 20
       = Some [''Hi! Yes. No.'', ''Oh!'', ''and then some more t'', ''ext here'']
   \<and> chunk_spans ''Hi! Yes. No. Oh! and then some more text here'' 20
       = Some [(0, 13), (13, 17), (17, 37), (37, 45)]
   \<and> follows_rule ''Hi! Yes. No. Oh! and then some more text here'' 20 0
        [(0, 13), (13, 17), (17, 37), (37, 45)]
   \<and> py_slice ''Hi! Yes. No. Oh! and then some more text here'' 0 (0 + 20)
       = ''Hi! Yes. No. Oh! and''
   \<and> occurrences ''Hi! Yes. No. Oh! and'' ''. '' = [7, 11]
   \<and> occurrences ''Hi! Yes. No. Oh! and'' ''! '' = [2, 15]"
proof -
  let ?T = "''Hi! Yes. No. Oh! and then some more text here''"
  have a: "(1::int) \<le> 20" "(20::int) < int (length ?T)" by simp_all
  have ev: "chunk_text ?T 20 = Some [''Hi! Yes. No.'', ''Oh!'', ''and then some more t'', ''ext here'']"
    "chunk_spans ?T 20 = Some [(0, 13), (13, 17), (17, 37), (37, 45)]"
    "py_slice ?T 0 (0 + 20) = ''Hi! Yes. No. Oh! and''"
    "occurrences ''Hi! Yes. No. Oh! and'' ''. '' = [7, 11]"
    "occurrences ''Hi! Yes. No. Oh! and'' ''! '' = [2, 15]"
    by code_simp+
  from chunk_text_boundary_choice [OF a] obtain spans where
    "chunk_spans ?T 20 = Some spans" "follows_rule ?T 20 0 spans" by blast
  with ev(2) have "follows_rule ?T 20 0 [(0, 13), (13, 17), (17, 37), (37, 45)]" by simp
  with a ev show ?thesis by (intro conjI)
qed

section \<open>Synthesis of one segment\<close>

lemma sf_write_written:
  assumes "sf_write_result e (write_calls w) p data samplerate = Written"
  shows "sf_write e w p data samplerate =
         (Inr (), w\<lparr>write_calls := Suc (write_calls w),
                     files := (files w)(p \<mapsto> Audio data samplerate)\<rparr>)"
  using assms by (simp add: sf_write_def)

lemma sf_write_raises:
  assumes "sf_write_result e (write_calls w) p data samplerate = WriteRaises err left"
  shows "sf_write e w p data samplerate =
         (Inl err, w\<lparr>write_calls := Suc (write_calls w),
                       files := (case left of None \<Rightarrow> files w | Some c \<Rightarrow> (files w)(p \<mapsto> c))\<rparr>)"
  using assms by (simp add: sf_write_def)

lemma generate_audio_chunk_success:
  assumes "f5tts_model w \<or> load_f5tts e = Inr ()"
    and "infer e (infer_calls w) reference_audio reference_text text = Inr audio_data"
    and "sf_write_result e (write_calls w) output_path audio_data 24000 = Written"
  shows "generate_audio_chunk e w text reference_audio reference_text output_path =
         (Inr True, w\<lparr>f5tts_model := True, infer_calls := Suc (infer_calls w),
                      write_calls := Suc (write_calls w),
                      files := (files w)(output_path \<mapsto> Audio audio_data 24000)\<rparr>)"
  using assms
  by (cases "f5tts_model w")
     (auto simp: generate_audio_chunk_def load_f5tts_model_def sf_write_def Let_def)

lemma generate_audio_chunk_write_failure:
  assumes "f5tts_model w \<or> load_f5tts e = Inr ()"
    and "infer e (infer_calls w) reference_audio reference_text text = Inr audio_data"
    and "sf_write_result e (write_calls w) output_path audio_data 24000 = WriteRaises err left"
  shows "generate_audio_chunk e w text reference_audio reference_text output_path =
         (Inr False, w\<lparr>f5tts_model := True, infer_calls := Suc (infer_calls w),
                       write_calls := Suc (write_calls w),
                       files := (case left of None \<Rightarrow> files w
                                 | Some c \<Rightarrow> (files w)(output_path \<mapsto> c))\<rparr>)"
  using assms
  by (cases "f5tts_model w"; cases left)
     (auto simp: generate_audio_chunk_def load_f5tts_model_def sf_write_def Let_def)

lemma generate_audio_chunk_failure:
  assumes "f5tts_model w \<or> load_f5tts e = Inr ()"
    and "infer e (infer_calls w) reference_audio reference_text text = Inl err"
  shows "generate_audio_chunk e w text reference_audio reference_text output_path =
         (Inr False, w\<lparr>f5tts_model := True, infer_calls := Suc (infer_calls w)\<rparr>)"
  using assms
  by (cases "f5tts_model w")
     (auto simp: generate_audio_chunk_def load_f5tts_model_def Let_def)

lemma generate_audio_chunk_no_model:
  assumes "\<not> f5tts_model w" "load_f5tts e = Inl err"
  shows "generate_audio_chunk e w text reference_audio reference_text output_path = (Inl err, w)"
  using assms by (simp add: generate_audio_chunk_def load_f5tts_model_def)

text \<open>
  C4 as the claim states it fails in two ways. A failure of the collaborator while the
  model is loaded is raised before the \<open>try\<close>, so the call raises instead of answering
  \<open>False\<close>. And when \<open>infer\<close> returns but the write raises, the answer is \<open>False\<close>, and the
  failed write may leave a file.
\<close>

theorem generate_audio_chunk_load_failure_counterexample:
  "\<not> f5tts_model empty_state \<and> load_f5tts broken_env = Inl ModelLoadError
   \<and> fst (generate_audio_chunk broken_env empty_state ''Hello.'' [''ref.wav''] ''ref''
            [''out.wav'']) = Inl ModelLoadError
   \<and> fst (generate_audio_chunk broken_env empty_state ''Hello.'' [''ref.wav''] ''ref''
            [''out.wav'']) \<noteq> Inr False
   \<and> load_f5tts full_disk_env = Inr ()
   \<and> infer full_disk_env 0 [''ref.wav''] ''ref'' ''Hello.'' = Inr [0]
   \<and> fst (generate_audio_chunk full_disk_env empty_state ''Hello.'' [''ref.wav''] ''ref''
            [''out.wav'']) = Inr False
   \<and> files (snd (generate_audio_chunk full_disk_env empty_state ''Hello.'' [''ref.wav''] ''ref''
              [''out.wav''])) [''out.wav''] = Some (Audio [] 24000)"
  by (simp add: generate_audio_chunk_def load_f5tts_model_def broken_env_def empty_state_def
      full_disk_env_def infer_fails_third_def first_write_fails_def sf_write_def Let_def)

text \<open>
  C4 (as the code has it). When the \<open>infer\<close> call returns samples and the write of them
  succeeds, the answer is \<open>True\<close> and the disk changes at \<open>output_path\<close> only, which then
  holds these samples at 24000 Hz whatever it held before. When the \<open>infer\<close> call raises,
  the answer is \<open>False\<close> and the disk is unchanged. When the \<open>infer\<close> call returns but the
  write raises, the answer is \<open>False\<close> too, and the disk is unchanged except for what the
  failed write leaves at \<open>output_path\<close>. The \<open>infer\<close> call is made when a model is loaded or
  can be loaded; when loading raises, the call raises the same exception and the state is
  unchanged.
\<close>

theorem generate_audio_chunk_result:
  "((f5tts_model w \<or> load_f5tts e = Inr ())
      \<and> infer e (infer_calls w) reference_audio reference_text text = Inr audio_data
      \<and> sf_write_result e (write_calls w) output_path audio_data 24000 = Written \<longrightarrow>
      generate_audio_chunk e w text reference_audio reference_text output_path =
        (Inr True, w\<lparr>f5tts_model := True, infer_calls := Suc (infer_calls w),
                     write_calls := Suc (write_calls w),
                     files := (files w)(output_path \<mapsto> Audio audio_data 24000)\<rparr>))
   \<and> ((f5tts_model w \<or> load_f5tts e = Inr ())
      \<and> infer e (infer_calls w) reference_audio reference_text text = Inl err \<longrightarrow>
      generate_audio_chunk e w text reference_audio reference_text output_path =
        (Inr False, w\<lparr>f5tts_model := True, infer_calls := Suc (infer_calls w)\<rparr>))
   \<and> ((f5tts_model w \<or> load_f5tts e = Inr ())
      \<and> infer e (infer_calls w) reference_audio reference_text text = Inr audio_data
      \<and> sf_write_result e (write_calls w) output_path audio_data 24000 = WriteRaises err left \<longrightarrow>
      generate_audio_chunk e w text reference_audio reference_text output_path =
        (Inr False, w\<lparr>f5tts_model := True, infer_calls := Suc (infer_calls w),
                      write_calls := Suc (write_calls w),
                      files := (case left of None \<Rightarrow> files w
                                | Some c \<Rightarrow> (files w)(output_path \<mapsto> c))\<rparr>))
   \<and> (\<not> f5tts_model w \<and> load_f5tts e = Inl err \<longrightarrow>
      generate_audio_chunk e w text reference_audio reference_text output_path = (Inl err, w))"
proof (intro conjI impI)
  assume "(f5tts_model w \<or> load_f5tts e = Inr ())
      \<and> infer e (infer_calls w) reference_audio reference_text text = Inr audio_data
      \<and> sf_write_result e (write_calls w) output_path audio_data 24000 = Written"
  then show "generate_audio_chunk e w text reference_audio reference_text output_path =
        (Inr True, w\<lparr>f5tts_model := True, infer_calls := Suc (infer_calls w),
                     write_calls := Suc (write_calls w),
                     files := (files w)(output_path \<mapsto> Audio audio_data 24000)\<rparr>)"
    by (simp add: generate_audio_chunk_success)
next
  assume "(f5tts_model w \<or> load_f5tts e = Inr ())
      \<and> infer e (infer_calls w) reference_audio reference_text text = Inl err"
  then show "generate_audio_chunk e w text reference_audio reference_text output_path =
        (Inr False, w\<lparr>f5tts_model := True, infer_calls := Suc (infer_calls w)\<rparr>)"
    by (simp add: generate_audio_chunk_failure)
next
  assume "(f5tts_model w \<or> load_f5tts e = Inr ())
      \<and> infer e (infer_calls w) reference_audio reference_text text = Inr audio_data
      \<and> sf_write_result e (write_calls w) output_path audio_data 24000 = WriteRaises err left"
  then show "generate_audio_chunk e w text reference_audio reference_text output_path =
        (Inr False, w\<lparr>f5tts_model := True, infer_calls := Suc (infer_calls w),
                      write_calls := Suc (write_calls w),
                      files := (case left of None \<Rightarrow> files w
                                | Some c \<Rightarrow> (files w)(output_path \<mapsto> c))\<rparr>)"
    by (simp add: generate_audio_chunk_write_failure)
next
  assume "\<not> f5tts_model w \<and> load_f5tts e = Inl err"
  then show "generate_audio_chunk e w text reference_audio reference_text output_path = (Inl err, w)"
    by (simp add: generate_audio_chunk_no_model)
qed

theorem generate_audio_chunk_result_witness:
  "load_f5tts working_env = Inr ()
   \<and> infer working_env 0 [''ref.wav''] ''ref'' ''Hello.'' = Inr [0]
   \<and> sf_write_result working_env 0 [''out.wav''] [0] 24000 = Written
   \<and> fst (generate_audio_chunk working_env empty_state ''Hello.'' [''ref.wav''] ''ref''
            [''out.wav'']) = Inr True
   \<and> files (snd (generate_audio_chunk working_env empty_state ''Hello.'' [''ref.wav''] ''ref''
              [''out.wav''])) [''out.wav''] = Some (Audio [0] 24000)
   \<and> infer working_env 2 [''ref.wav''] ''ref'' ''Hello.'' = Inl InferenceError
   \<and> fst (generate_audio_chunk working_env (empty_state\<lparr>infer_calls := 2\<rparr>) ''Hello.''
            [''ref.wav''] ''ref'' [''out.wav'']) = Inr False
   \<and> files (snd (generate_audio_chunk working_env (empty_state\<lparr>infer_calls := 2\<rparr>) ''Hello.''
              [''ref.wav''] ''ref'' [''out.wav''])) = files empty_state
   \<and> sf_write_result full_disk_env 0 [''out.wav''] [0] 24000
        = WriteRaises SoundFileError (Some (Audio [] 24000))
   \<and> fst (generate_audio_chunk full_disk_env empty_state ''Hello.'' [''ref.wav''] ''ref''
            [''out.wav'']) = Inr False
   \<and> files (snd (generate_audio_chunk full_disk_env empty_state ''Hello.'' [''ref.wav''] ''ref''
              [''out.wav''])) [''out.wav''] = Some (Audio [] 24000)
   \<and> \<not> f5tts_model empty_state \<and> load_f5tts broken_env = Inl ModelLoadError
   \<and> generate_audio_chunk broken_env empty_state ''Hello.'' [''ref.wav''] ''ref''
        [''out.wav''] = (Inl ModelLoadError, empty_state)"
proof -
  have l: "load_f5tts working_env = Inr ()" "load_f5tts full_disk_env = Inr ()"
    by (simp_all add: working_env_def full_disk_env_def)
  have i0: "infer working_env (infer_calls empty_state) [''ref.wav''] ''ref'' ''Hello.'' = Inr [0]"
    "infer full_disk_env (infer_calls empty_state) [''ref.wav''] ''ref'' ''Hello.'' = Inr [0]"
    by (simp_all add: working_env_def full_disk_env_def empty_state_def infer_fails_third_def)
  have i2: "infer working_env (infer_calls (empty_state\<lparr>infer_calls := 2\<rparr>)) [''ref.wav''] ''ref''
      ''Hello.'' = Inl InferenceError"
    by (simp add: working_env_def infer_fails_third_def)
  have wr: "sf_write_result working_env (write_calls empty_state) [''out.wav''] [0] 24000 = Written"
    "sf_write_result full_disk_env (write_calls empty_state) [''out.wav''] [0] 24000
       = WriteRaises SoundFileError (Some (Audio [] 24000))"
    by (simp_all add: working_env_def full_disk_env_def empty_state_def writes_succeed_def
        first_write_fails_def)
  have b: "\<not> f5tts_model empty_state" "load_f5tts broken_env = Inl ModelLoadError"
    by (simp_all add: empty_state_def broken_env_def)
  from generate_audio_chunk_result [of empty_state working_env "[''ref.wav'']" "''ref''"
      "''Hello.''" "[0]" "[''out.wav'']" InferenceError None] l(1) i0(1) wr(1)
  have g0: "generate_audio_chunk working_env empty_state ''Hello.'' [''ref.wav''] ''ref''
      [''out.wav''] =
      (Inr True, empty_state\<lparr>f5tts_model := True, infer_calls := Suc (infer_calls empty_state),
         write_calls := Suc (write_calls empty_state),
         files := (files empty_state)([''out.wav''] \<mapsto> Audio [0] 24000)\<rparr>)"
    by blast
  from generate_audio_chunk_result [of "empty_state\<lparr>infer_calls := 2\<rparr>" working_env
      "[''ref.wav'']" "''ref''" "''Hello.''" "[0]" "[''out.wav'']" InferenceError None] l(1) i2
  have g2: "generate_audio_chunk working_env (empty_state\<lparr>infer_calls := 2\<rparr>) ''Hello.''
      [''ref.wav''] ''ref'' [''out.wav''] =
      (Inr False, empty_state\<lparr>infer_calls := 2, f5tts_model := True,
         infer_calls := Suc (infer_calls (empty_state\<lparr>infer_calls := 2\<rparr>))\<rparr>)"
    by blast
  from generate_audio_chunk_result [of empty_state full_disk_env "[''ref.wav'']" "''ref''"
      "''Hello.''" "[0]" "[''out.wav'']" SoundFileError "Some (Audio [] 24000)"] l(2) i0(2) wr(2)
  have g1: "generate_audio_chunk full_disk_env empty_state ''Hello.'' [''ref.wav''] ''ref''
      [''out.wav''] =
      (Inr False, empty_state\<lparr>f5tts_model := True, infer_calls := Suc (infer_calls empty_state),
         write_calls := Suc (write_calls empty_state),
         files := (case Some (Audio [] 24000) of None \<Rightarrow> files empty_state
                   | Some c \<Rightarrow> (files empty_state)([''out.wav''] \<mapsto> c))\<rparr>)"
    by blast
  from generate_audio_chunk_result [of empty_state broken_env "[''ref.wav'']" "''ref''"
      "''Hello.''" "[0]" "[''out.wav'']" ModelLoadError None] b
  have g3: "generate_audio_chunk broken_env empty_state ''Hello.'' [''ref.wav''] ''ref''
      [''out.wav''] = (Inl ModelLoadError, empty_state)"
    by blast
  have "infer working_env 0 [''ref.wav''] ''ref'' ''Hello.'' = Inr [0]"
    "infer working_env 2 [''ref.wav''] ''ref'' ''Hello.'' = Inl InferenceError"
    "sf_write_result working_env 0 [''out.wav''] [0] 24000 = Written"
    "sf_write_result full_disk_env 0 [''out.wav''] [0] 24000
       = WriteRaises SoundFileError (Some (Audio [] 24000))"
    by (simp_all add: working_env_def full_disk_env_def infer_fails_third_def writes_succeed_def
        first_write_fails_def)
  with l b g3 show ?thesis
    unfolding g0 g1 g2 by simp
qed

section \<open>Merging\<close>

lemma read_segments_fails:
  "\<exists>f\<in>set audio_files. \<exists>err. sf_read w f = Inl err \<Longrightarrow>
   \<exists>err. read_segments w audio_files audio_segments sr = Inl err"
proof (induction audio_files arbitrary: audio_segments sr)
  case Nil
  then show ?case by simp
next
  case (Cons f rest)
  show ?case
  proof (cases "sf_read w f")
    case (Inl err)
    then show ?thesis by simp
  next
    case (Inr r)
    with Cons.prems have "\<exists>f\<in>set rest. \<exists>err. sf_read w f = Inl err" by auto
    from Cons.IH [OF this] Inr show ?thesis
      by (cases r) simp
  qed
qed

lemma read_segments_reads:
  "\<forall>f\<in>set audio_files. \<exists>r. sf_read w f = Inr r \<Longrightarrow>
   read_segments w audio_files audio_segments sr =
     Inr (audio_segments @ map (\<lambda>f. fst (projr (sf_read w f))) audio_files,
          if audio_files = [] then sr else Some (snd (projr (sf_read w (last audio_files)))))"
proof (induction audio_files arbitrary: audio_segments sr)
  case Nil
  then show ?case by simp
next
  case (Cons f rest)
  from Cons.prems obtain audio r where f: "sf_read w f = Inr (audio, r)" by fastforce
  from Cons.prems have "\<forall>f\<in>set rest. \<exists>r. sf_read w f = Inr r" by simp
  from Cons.IH [OF this, of "audio_segments @ [audio]" "Some r"] f show ?case
    by simp
qed

text \<open>
  C5. For a non-empty list of input files: if reading one of them fails, the answer is
  \<open>False\<close> and the state (the disk with it) is unchanged, since every read comes before
  the one write. If every one is read, the write of the output is attempted unless
  \<open>np.concatenate\<close> raises: the answer is \<open>True\<close> when the write succeeds, and the output
  then holds the concatenation of the inputs' samples in the given order, at the rate of
  the last input. Every read either fails or succeeds, so the output is written only in
  the second case.
\<close>

theorem merge_audio_files_all_or_nothing:
  assumes "audio_files \<noteq> []"
  shows "((\<exists>f\<in>set audio_files. \<exists>err. sf_read w f = Inl err) \<longrightarrow>
            merge_audio_files e w audio_files output_path = (False, w))
     \<and> ((\<forall>f\<in>set audio_files. \<exists>r. sf_read w f = Inr r) \<longrightarrow>
            merge_audio_files e w audio_files output_path =
              (case concatenate_raises e (map (\<lambda>f. fst (projr (sf_read w f))) audio_files) of
                 Some err \<Rightarrow> (False, w)
               | None \<Rightarrow>
                   (case sf_write e w output_path
                           (concat (map (\<lambda>f. fst (projr (sf_read w f))) audio_files))
                           (snd (projr (sf_read w (last audio_files)))) of
                      (Inl err, w1) \<Rightarrow> (False, w1)
                    | (Inr u, w1) \<Rightarrow> (True, w1))))
     \<and> ((\<exists>f\<in>set audio_files. \<exists>err. sf_read w f = Inl err)
          \<or> (\<forall>f\<in>set audio_files. \<exists>r. sf_read w f = Inr r))"
proof -
  have "merge_audio_files e w audio_files output_path = (False, w)"
    if "\<exists>f\<in>set audio_files. \<exists>err. sf_read w f = Inl err"
    using read_segments_fails [OF that, of "[]" None]
    by (auto simp: merge_audio_files_def)
  moreover have "merge_audio_files e w audio_files output_path =
              (case concatenate_raises e (map (\<lambda>f. fst (projr (sf_read w f))) audio_files) of
                 Some err \<Rightarrow> (False, w)
               | None \<Rightarrow>
                   (case sf_write e w output_path
                           (concat (map (\<lambda>f. fst (projr (sf_read w f))) audio_files))
                           (snd (projr (sf_read w (last audio_files)))) of
                      (Inl err, w1) \<Rightarrow> (False, w1)
                    | (Inr u, w1) \<Rightarrow> (True, w1)))"
    if "\<forall>f\<in>set audio_files. \<exists>r. sf_read w f = Inr r"
    using read_segments_reads [OF that, of "[]" None] assms
    by (simp add: merge_audio_files_def split: option.splits)
  moreover have "(\<exists>f\<in>set audio_files. \<exists>err. sf_read w f = Inl err)
          \<or> (\<forall>f\<in>set audio_files. \<exists>r. sf_read w f = Inr r)"
    by (metis sum.exhaust)
  ultimately show ?thesis by blast
qed

theorem merge_audio_files_all_or_nothing_witness:
  "[[''a.wav''], [''missing.wav''], [''b.wav'']] \<noteq> []
   \<and> sf_read two_files_state [''missing.wav''] = Inl SoundFileError
   \<and> merge_audio_files working_env two_files_state
        [[''a.wav''], [''missing.wav''], [''b.wav'']] [''out.wav'']
       = (False, two_files_state)
   \<and> [[''a.wav''], [''b.wav'']] \<noteq> []
   \<and> sf_read two_files_state [''a.wav''] = Inr ([1, 2], 24000)
   \<and> sf_read two_files_state [''b.wav''] = Inr ([3], 24000)
   \<and> fst (merge_audio_files working_env two_files_state [[''a.wav''], [''b.wav'']] [''out.wav''])
       = True
   \<and> files (snd (merge_audio_files working_env two_files_state [[''a.wav''], [''b.wav'']]
                   [''out.wav''])) [''out.wav'']
       = Some (Audio [1, 2, 3] 24000)"
proof -
  have r: "sf_read two_files_state [''missing.wav''] = Inl SoundFileError"
    "sf_read two_files_state [''a.wav''] = Inr ([1, 2], 24000)"
    "sf_read two_files_state [''b.wav''] = Inr ([3], 24000)"
    by (simp_all add: sf_read_def two_files_state_def)
  have ne: "[[''a.wav''], [''missing.wav''], [''b.wav'']] \<noteq> []" "[[''a.wav''], [''b.wav'']] \<noteq> []"
    by simp_all
  from r(1) have bad: "\<exists>f\<in>set [[''a.wav''], [''missing.wav''], [''b.wav'']].
      \<exists>err. sf_read two_files_state f = Inl err" by simp
  from merge_audio_files_all_or_nothing [OF ne(1), of two_files_state working_env "[''out.wav'']"] bad
  have m1: "merge_audio_files working_env two_files_state
      [[''a.wav''], [''missing.wav''], [''b.wav'']] [''out.wav''] = (False, two_files_state)"
    by blast
  from r(2,3) have good: "\<forall>f\<in>set [[''a.wav''], [''b.wav'']]. \<exists>r. sf_read two_files_state f = Inr r"
    by simp
  from merge_audio_files_all_or_nothing [OF ne(2), of two_files_state working_env "[''out.wav'']"] good
  have "merge_audio_files working_env two_files_state [[''a.wav''], [''b.wav'']] [''out.wav''] =
      (case concatenate_raises working_env
              (map (\<lambda>f. fst (projr (sf_read two_files_state f))) [[''a.wav''], [''b.wav'']]) of
         Some err \<Rightarrow> (False, two_files_state)
       | None \<Rightarrow>
           (case sf_write working_env two_files_state [''out.wav'']
                   (concat (map (\<lambda>f. fst (projr (sf_read two_files_state f)))
                              [[''a.wav''], [''b.wav'']]))
                   (snd (projr (sf_read two_files_state (last [[''a.wav''], [''b.wav'']])))) of
              (Inl err, w1) \<Rightarrow> (False, w1)
            | (Inr u, w1) \<Rightarrow> (True, w1)))"
    by blast
  then have m2: "fst (merge_audio_files working_env two_files_state [[''a.wav''], [''b.wav'']]
        [''out.wav'']) = True"
    "files (snd (merge_audio_files working_env two_files_state [[''a.wav''], [''b.wav'']]
                   [''out.wav''])) [''out.wav'']
       = Some (Audio [1, 2, 3] 24000)"
    by (simp_all add: r working_env_def concatenate_works_def writes_succeed_def sf_write_def)
  from r m1 m2 ne show ?thesis by (intro conjI)
qed

section \<open>File names are distinct\<close>

lemma digits_value_snoc: "digits_value (s @ [c]) = 10 * digits_value s + (of_char c - 48)"
  by (simp add: digits_value_def)

lemma digits_value_digit: "n < 10 \<Longrightarrow> digits_value [char_of (48 + n)] = n"
  by (simp add: digits_value_def)

lemma digits_value_decimal: "digits_value (decimal n) = n"
proof (induction n rule: decimal.induct)
  case (1 n)
  show ?case
  proof (cases "n < 10")
    case True
    then show ?thesis
      by (subst decimal.simps) (simp add: digits_value_digit)
  next
    case False
    then have m: "n mod 10 < 10" by simp
    have "of_char (char_of (48 + n mod 10)) = 48 + n mod 10"
      using m by simp
    with False "1.IH" show ?thesis
      by (subst decimal.simps) (simp add: digits_value_snoc)
  qed
qed

lemma foldl_zeros:
  "foldl (\<lambda>a c. 10 * a + (of_char c - 48)) 0 (replicate k CHR ''0'') = (0::nat)"
  by (induction k) simp_all

lemma digits_value_zeros: "digits_value (replicate k CHR ''0'' @ s) = digits_value s"
  by (simp add: digits_value_def foldl_zeros)

lemma format_03d_inj: "format_03d m = format_03d n \<Longrightarrow> m = n"
proof -
  assume "format_03d m = format_03d n"
  then have "digits_value (format_03d m) = digits_value (format_03d n)" by simp
  then show "m = n"
    by (simp add: format_03d_def digits_value_zeros digits_value_decimal)
qed

lemma chunk_output_path_inj:
  "chunk_output_path e script_name i = chunk_output_path e script_name j \<Longrightarrow> i = j"
  by (auto simp: chunk_output_path_def chunk_file_name_def dest: format_03d_inj)

lemma final_output_path_fresh:
  "final_output_path e script_name \<noteq> chunk_output_path e script_name' i"
  by (simp add: final_output_path_def chunk_output_path_def output_dir_def temp_dir_def)

section \<open>The successful segments\<close>

lemma attempts_index_lower:
  "t \<in> set (write_attempts e ra rt name n k i chunks) \<Longrightarrow> i \<le> fst t"
proof (induction chunks arbitrary: n k i)
  case Nil
  then show ?case by simp
next
  case (Cons c rest)
  then show ?case
    by (cases "infer e n ra rt c") (fastforce dest: Cons.IH)+
qed

lemma attempts_sorted: "sorted_wrt (<) (map fst (write_attempts e ra rt name n k i chunks))"
proof (induction chunks arbitrary: n k i)
  case Nil
  then show ?case by simp
next
  case (Cons c rest)
  show ?case
  proof (cases "infer e n ra rt c")
    case (Inl err)
    then show ?thesis using Cons.IH by simp
  next
    case (Inr a)
    have "i < j" if "j \<in> fst ` set (write_attempts e ra rt name (Suc n) (Suc k) (Suc i) rest)" for j
      using that attempts_index_lower by fastforce
    with Inr Cons.IH show ?thesis by auto
  qed
qed

lemma attempts_results:
  "t \<in> set (write_attempts e ra rt name n k i chunks) \<Longrightarrow>
   \<exists>k'. snd (snd t) = sf_write_result e k' (chunk_output_path e name (fst t)) (fst (snd t)) 24000"
proof (induction chunks arbitrary: n k i)
  case Nil
  then show ?case by simp
next
  case (Cons c rest)
  then show ?case
    by (cases "infer e n ra rt c") (fastforce dest: Cons.IH)+
qed

lemma attempts_member:
  "(\<exists>r. (j, a, r) \<in> set (write_attempts e ra rt name n k i chunks)) \<longleftrightarrow>
     i \<le> j \<and> j < i + length chunks \<and> infer e (n + (j - i)) ra rt (chunks ! (j - i)) = Inr a"
proof (induction chunks arbitrary: n k i)
  case Nil
  then show ?case by simp
next
  case (Cons c rest)
  have shift: "(Suc i \<le> j \<and> j < Suc i + length rest
         \<and> infer e (Suc n + (j - Suc i)) ra rt (rest ! (j - Suc i)) = Inr a)
      \<longleftrightarrow> (i < j \<and> j < i + length (c # rest)
         \<and> infer e (n + (j - i)) ra rt ((c # rest) ! (j - i)) = Inr a)"
  proof (cases "i < j")
    case True
    then obtain d where d: "j - i = Suc d" "j - Suc i = d"
      by (metis Suc_diff_Suc diff_Suc_eq_diff_pred Suc_pred zero_less_diff)
    with True show ?thesis by auto
  next
    case False
    then show ?thesis by auto
  qed
  show ?case
  proof (cases "infer e n ra rt c")
    case (Inl err)
    have "(\<exists>r. (j, a, r) \<in> set (write_attempts e ra rt name n k i (c # rest)))
        \<longleftrightarrow> (\<exists>r. (j, a, r) \<in> set (write_attempts e ra rt name (Suc n) k (Suc i) rest))"
      using Inl by simp
    also have "\<dots> \<longleftrightarrow> (i < j \<and> j < i + length (c # rest)
         \<and> infer e (n + (j - i)) ra rt ((c # rest) ! (j - i)) = Inr a)"
      unfolding Cons.IH shift ..
    also have "\<dots> \<longleftrightarrow> (i \<le> j \<and> j < i + length (c # rest)
         \<and> infer e (n + (j - i)) ra rt ((c # rest) ! (j - i)) = Inr a)"
      using Inl by (cases "j = i") auto
    finally show ?thesis .
  next
    case (Inr b)
    have "(\<exists>r. (j, a, r) \<in> set (write_attempts e ra rt name n k i (c # rest)))
        \<longleftrightarrow> (j = i \<and> a = b)
            \<or> (\<exists>r. (j, a, r) \<in> set (write_attempts e ra rt name (Suc n) (Suc k) (Suc i) rest))"
      using Inr by auto
    also have "\<dots> \<longleftrightarrow> (j = i \<and> a = b) \<or> (i < j \<and> j < i + length (c # rest)
         \<and> infer e (n + (j - i)) ra rt ((c # rest) ! (j - i)) = Inr a)"
      unfolding Cons.IH shift ..
    also have "\<dots> \<longleftrightarrow> (i \<le> j \<and> j < i + length (c # rest)
         \<and> infer e (n + (j - i)) ra rt ((c # rest) ! (j - i)) = Inr a)"
      using Inr by (cases "j = i") auto
    finally show ?thesis .
  qed
qed

lemma successes_in_attempts:
  "(j, a) \<in> set (successes e ra rt name n k i chunks) \<longleftrightarrow>
   (j, a, Written) \<in> set (write_attempts e ra rt name n k i chunks)"
  by (force simp: successes_def)

lemma successes_infer_fails:
  assumes "infer e n ra rt c = Inl err"
  shows "successes e ra rt name n k i (c # rest) = successes e ra rt name (Suc n) k (Suc i) rest"
  using assms by (simp add: successes_def)

lemma successes_written:
  assumes "infer e n ra rt c = Inr a"
    and "sf_write_result e k (chunk_output_path e name i) a 24000 = Written"
  shows "successes e ra rt name n k i (c # rest)
       = (i, a) # successes e ra rt name (Suc n) (Suc k) (Suc i) rest"
  using assms by (simp add: successes_def)

lemma successes_write_raises:
  assumes "infer e n ra rt c = Inr a"
    and "sf_write_result e k (chunk_output_path e name i) a 24000 = WriteRaises err left"
  shows "successes e ra rt name n k i (c # rest)
       = successes e ra rt name (Suc n) (Suc k) (Suc i) rest"
  using assms by (simp add: successes_def)

lemma successes_sorted: "sorted_wrt (<) (map fst (successes e ra rt name n k i chunks))"
proof -
  let ?A = "write_attempts e ra rt name n k i chunks"
  have "sorted_wrt (\<lambda>x y. fst x < fst y) ?A"
    using attempts_sorted [of e ra rt name n k i chunks] by (simp add: sorted_wrt_map)
  then have "sorted_wrt (\<lambda>x y. fst x < fst y) (filter (\<lambda>t. snd (snd t) = Written) ?A)"
    by (rule sorted_wrt_filter)
  then show ?thesis
    by (simp add: successes_def sorted_wrt_map)
qed

lemma successes_infer:
  assumes "(j, a) \<in> set (successes e ra rt name n k 0 chunks)"
  shows "j < length chunks \<and> infer e (n + j) ra rt (chunks ! j) = Inr a"
proof -
  from assms have "\<exists>r. (j, a, r) \<in> set (write_attempts e ra rt name n k 0 chunks)"
    using successes_in_attempts by blast
  then show ?thesis by (simp add: attempts_member)
qed

lemma successes_all_written:
  assumes "\<forall>n p d. sf_write_result e n p d 24000 = Written"
  shows "(j, a) \<in> set (successes e ra rt name n k 0 chunks) \<longleftrightarrow>
         j < length chunks \<and> infer e (n + j) ra rt (chunks ! j) = Inr a"
proof
  assume "(j, a) \<in> set (successes e ra rt name n k 0 chunks)"
  then show "j < length chunks \<and> infer e (n + j) ra rt (chunks ! j) = Inr a"
    by (rule successes_infer)
next
  assume "j < length chunks \<and> infer e (n + j) ra rt (chunks ! j) = Inr a"
  then obtain r where r: "(j, a, r) \<in> set (write_attempts e ra rt name n k 0 chunks)"
    using attempts_member [of j a e ra rt name n k 0 chunks] by auto
  from attempts_results [OF r] assms have "r = Written" by auto
  with r show "(j, a) \<in> set (successes e ra rt name n k 0 chunks)"
    by (simp add: successes_in_attempts)
qed

section \<open>The loop over the segments\<close>

lemma generate_chunks_result:
  assumes "f5tts_model w \<or> load_f5tts e = Inr ()"
  shows "\<exists>w'. generate_chunks e script_name ra rt up fo i chunks gen w =
            (Inr (gen @ map (\<lambda>(k, a). chunk_output_path e script_name k)
                          (successes e ra rt script_name (infer_calls w) (write_calls w) i chunks)),
             w')
     \<and> write_calls w' = write_calls w
          + length (write_attempts e ra rt script_name (infer_calls w) (write_calls w) i chunks)
     \<and> (\<forall>(k, a)\<in>set (successes e ra rt script_name (infer_calls w) (write_calls w) i chunks).
            files w' (chunk_output_path e script_name k) = Some (Audio a 24000))
     \<and> (\<forall>p. (\<forall>t\<in>set (write_attempts e ra rt script_name (infer_calls w) (write_calls w) i chunks).
                 p \<noteq> chunk_output_path e script_name (fst t)) \<longrightarrow> files w' p = files w p)"
  using assms
proof (induction chunks arbitrary: i gen w)
  case Nil
  then show ?case by (simp add: successes_def)
next
  case (Cons c rest)
  let ?out = "chunk_output_path e script_name i"
  let ?n = "infer_calls w"
  let ?k = "write_calls w"
  show ?case
  proof (cases "infer e ?n ra rt c")
    case (Inl err)
    define w1 where "w1 = w\<lparr>f5tts_model := True, infer_calls := Suc (infer_calls w)\<rparr>"
    have g: "generate_audio_chunk e w c ra rt ?out = (Inr False, w1)"
      unfolding w1_def by (rule generate_audio_chunk_failure [OF Cons.prems Inl])
    have w1: "f5tts_model w1 \<or> load_f5tts e = Inr ()" "infer_calls w1 = Suc ?n"
      "write_calls w1 = ?k" "files w1 = files w"
      by (simp_all add: w1_def)
    from Cons.IH [OF w1(1), of "Suc i" gen] obtain w' where IH:
      "generate_chunks e script_name ra rt up fo (Suc i) rest gen w1 =
         (Inr (gen @ map (\<lambda>(k, a). chunk_output_path e script_name k)
                       (successes e ra rt script_name (Suc ?n) ?k (Suc i) rest)), w')"
      "write_calls w' = ?k + length (write_attempts e ra rt script_name (Suc ?n) ?k (Suc i) rest)"
      "\<forall>(k, a)\<in>set (successes e ra rt script_name (Suc ?n) ?k (Suc i) rest).
          files w' (chunk_output_path e script_name k) = Some (Audio a 24000)"
      "\<forall>p. (\<forall>t\<in>set (write_attempts e ra rt script_name (Suc ?n) ?k (Suc i) rest).
               p \<noteq> chunk_output_path e script_name (fst t)) \<longrightarrow> files w' p = files w p"
      unfolding w1(2,3,4) by blast
    have s: "successes e ra rt script_name ?n ?k i (c # rest)
        = successes e ra rt script_name (Suc ?n) ?k (Suc i) rest"
      by (rule successes_infer_fails [OF Inl])
    have a: "write_attempts e ra rt script_name ?n ?k i (c # rest)
        = write_attempts e ra rt script_name (Suc ?n) ?k (Suc i) rest"
      using Inl by simp
    have run: "generate_chunks e script_name ra rt up fo i (c # rest) gen w =
        generate_chunks e script_name ra rt up fo (Suc i) rest gen w1"
      using g by (simp add: chunk_output_path_def Let_def)
    show ?thesis
      unfolding s a by (rule exI [of _ w']) (use IH run in simp)
  next
    case (Inr a)
    let ?S = "successes e ra rt script_name (Suc ?n) (Suc ?k) (Suc i) rest"
    let ?A = "write_attempts e ra rt script_name (Suc ?n) (Suc ?k) (Suc i) rest"
    have fresh: "\<forall>t\<in>set ?A. ?out \<noteq> chunk_output_path e script_name (fst t)"
    proof
      fix t
      assume t: "t \<in> set ?A"
      show "?out \<noteq> chunk_output_path e script_name (fst t)"
      proof
        assume "?out = chunk_output_path e script_name (fst t)"
        then have "i = fst t" by (rule chunk_output_path_inj)
        moreover from t have "Suc i \<le> fst t" by (rule attempts_index_lower)
        ultimately show False by simp
      qed
    qed
    show ?thesis
    proof (cases "sf_write_result e ?k ?out a 24000")
      case Written
      define w1 where "w1 = w\<lparr>f5tts_model := True, infer_calls := Suc ?n,
          write_calls := Suc ?k, files := (files w)(?out \<mapsto> Audio a 24000)\<rparr>"
      define w2 where "w2 = (if up \<and> drive_manager w1 then upload_file w1 ?out fo else w1)"
      have g: "generate_audio_chunk e w c ra rt ?out = (Inr True, w1)"
        unfolding w1_def by (rule generate_audio_chunk_success [OF Cons.prems Inr Written])
      have w2: "f5tts_model w2 \<or> load_f5tts e = Inr ()" "infer_calls w2 = Suc ?n"
        "write_calls w2 = Suc ?k" "files w2 = (files w)(?out \<mapsto> Audio a 24000)"
        by (simp_all add: w2_def w1_def upload_file_def)
      from Cons.IH [OF w2(1), of "Suc i" "gen @ [?out]"] obtain w' where IH:
        "generate_chunks e script_name ra rt up fo (Suc i) rest (gen @ [?out]) w2 =
           (Inr ((gen @ [?out]) @ map (\<lambda>(k, a). chunk_output_path e script_name k) ?S), w')"
        "write_calls w' = Suc ?k + length ?A"
        "\<forall>(k, a)\<in>set ?S. files w' (chunk_output_path e script_name k) = Some (Audio a 24000)"
        "\<forall>p. (\<forall>t\<in>set ?A. p \<noteq> chunk_output_path e script_name (fst t))
             \<longrightarrow> files w' p = files w2 p"
        unfolding w2(2,3) by blast
      have s: "successes e ra rt script_name ?n ?k i (c # rest) = (i, a) # ?S"
        by (rule successes_written [OF Inr Written])
      have at: "write_attempts e ra rt script_name ?n ?k i (c # rest) = (i, a, Written) # ?A"
        using Inr Written by simp
      have run: "generate_chunks e script_name ra rt up fo i (c # rest) gen w =
          generate_chunks e script_name ra rt up fo (Suc i) rest (gen @ [?out]) w2"
        using g by (simp add: chunk_output_path_def w2_def Let_def)
      from fresh IH(4) have here: "files w' ?out = Some (Audio a 24000)"
        by (simp add: w2(4))
      have res: "generate_chunks e script_name ra rt up fo i (c # rest) gen w =
          (Inr (gen @ map (\<lambda>(k, a). chunk_output_path e script_name k) ((i, a) # ?S)), w')"
        using run IH(1) by simp
      have cnt: "write_calls w' = ?k + length ((i, a, Written) # ?A)"
        using IH(2) by simp
      have written: "\<forall>(k, b)\<in>set ((i, a) # ?S).
          files w' (chunk_output_path e script_name k) = Some (Audio b 24000)"
        using here IH(3) by simp
      have others: "\<forall>p. (\<forall>t\<in>set ((i, a, Written) # ?A).
            p \<noteq> chunk_output_path e script_name (fst t)) \<longrightarrow> files w' p = files w p"
      proof (intro allI impI)
        fix p
        assume p: "\<forall>t\<in>set ((i, a, Written) # ?A). p \<noteq> chunk_output_path e script_name (fst t)"
        then have "p \<noteq> ?out" "\<forall>t\<in>set ?A. p \<noteq> chunk_output_path e script_name (fst t)"
          by simp_all
        with IH(4) show "files w' p = files w p"
          by (simp add: w2(4))
      qed
      show ?thesis
        unfolding s at by (rule exI [of _ w']) (use res cnt written others in simp)
    next
      case (WriteRaises err left)
      define w1 where "w1 = w\<lparr>f5tts_model := True, infer_calls := Suc ?n,
          write_calls := Suc ?k,
          files := (case left of None \<Rightarrow> files w | Some c \<Rightarrow> (files w)(?out \<mapsto> c))\<rparr>"
      have g: "generate_audio_chunk e w c ra rt ?out = (Inr False, w1)"
        unfolding w1_def
        by (rule generate_audio_chunk_write_failure [OF Cons.prems Inr WriteRaises])
      have w1: "f5tts_model w1 \<or> load_f5tts e = Inr ()" "infer_calls w1 = Suc ?n"
        "write_calls w1 = Suc ?k"
        by (simp_all add: w1_def)
      have f1: "files w1 p = files w p" if "p \<noteq> ?out" for p
        using that by (cases left) (simp_all add: w1_def)
      from Cons.IH [OF w1(1), of "Suc i" gen] obtain w' where IH:
        "generate_chunks e script_name ra rt up fo (Suc i) rest gen w1 =
           (Inr (gen @ map (\<lambda>(k, a). chunk_output_path e script_name k) ?S), w')"
        "write_calls w' = Suc ?k + length ?A"
        "\<forall>(k, a)\<in>set ?S. files w' (chunk_output_path e script_name k) = Some (Audio a 24000)"
        "\<forall>p. (\<forall>t\<in>set ?A. p \<noteq> chunk_output_path e script_name (fst t))
             \<longrightarrow> files w' p = files w1 p"
        unfolding w1(2,3) by blast
      have s: "successes e ra rt script_name ?n ?k i (c # rest) = ?S"
        by (rule successes_write_raises [OF Inr WriteRaises])
      have at: "write_attempts e ra rt script_name ?n ?k i (c # rest)
          = (i, a, WriteRaises err left) # ?A"
        using Inr WriteRaises by simp
      have run: "generate_chunks e script_name ra rt up fo i (c # rest) gen w =
          generate_chunks e script_name ra rt up fo (Suc i) rest gen w1"
        using g by (simp add: chunk_output_path_def Let_def)
      have cnt: "write_calls w' = ?k + length ((i, a, WriteRaises err left) # ?A)"
        using IH(2) by simp
      have others: "\<forall>p. (\<forall>t\<in>set ((i, a, WriteRaises err left) # ?A).
            p \<noteq> chunk_output_path e script_name (fst t)) \<longrightarrow> files w' p = files w p"
      proof (intro allI impI)
        fix p
        assume p: "\<forall>t\<in>set ((i, a, WriteRaises err left) # ?A).
            p \<noteq> chunk_output_path e script_name (fst t)"
        then have "p \<noteq> ?out" "\<forall>t\<in>set ?A. p \<noteq> chunk_output_path e script_name (fst t)"
          by simp_all
        with IH(4) f1 show "files w' p = files w p"
          by simp
      qed
      show ?thesis
        unfolding s at by (rule exI [of _ w']) (use run IH(1,3) cnt others in simp)
    qed
  qed
qed

lemma merge_generated:
  assumes "S \<noteq> []" "\<forall>(k, a)\<in>set S. files w (P k) = Some (Audio a 24000)"
  shows "merge_audio_files e w (map (\<lambda>(k, a). P k) S) out =
         (case concatenate_raises e (map snd S) of
            Some err \<Rightarrow> (False, w)
          | None \<Rightarrow>
              (case sf_write e w out (concat (map snd S)) 24000 of
                 (Inl err, w1) \<Rightarrow> (False, w1)
               | (Inr u, w1) \<Rightarrow> (True, w1)))"
proof -
  have rd: "sf_read w (P k) = Inr (a, 24000)" if "(k, a) \<in> set S" for k a
    using assms(2) that by (auto simp: sf_read_def)
  have all: "\<forall>f\<in>set (map (\<lambda>(k, a). P k) S). \<exists>r. sf_read w f = Inr r"
    using rd by auto
  have segs: "map ((\<lambda>f. fst (projr (sf_read w f))) \<circ> (\<lambda>(k, a). P k)) S = map snd S"
    by (rule map_cong) (auto simp: rd)
  from assms(1) have "last S \<in> set S" by simp
  then have "sf_read w (P (fst (last S))) = Inr (snd (last S), 24000)"
    using rd by (metis prod.collapse)
  moreover have "last (map (\<lambda>(k, a). P k) S) = P (fst (last S))"
    using assms(1) by (simp add: last_map case_prod_beta)
  ultimately have rate: "snd (projr (sf_read w (last (map (\<lambda>(k, a). P k) S)))) = 24000"
    by simp
  from read_segments_reads [OF all, of "[]" None] assms(1)
  show ?thesis
    by (simp add: merge_audio_files_def segs rate split: option.splits)
qed

section \<open>Failed segments are skipped\<close>

lemma process_script_result:
  fixes e :: env and w :: state
  defines "A \<equiv> \<lambda>ra rt name chunks.
      write_attempts e ra rt name (infer_calls w) (write_calls w) 0 chunks"
    and "S \<equiv> \<lambda>ra rt name chunks.
      successes e ra rt name (infer_calls w) (write_calls w) 0 chunks"
  assumes avail: "f5tts_model w \<or> load_f5tts e = Inr ()"
    and script: "read_text w script_path = Inr raw"
    and chunks: "chunk_text (strip raw) 500 = Some chunks"
    and some: "S ra rt (path_stem script_path) chunks \<noteq> []"
  shows "\<exists>w'. process_script e w script_path ra rt up fo =
            Some (Inr (map (\<lambda>(k, a). chunk_output_path e (path_stem script_path) k)
                         (S ra rt (path_stem script_path) chunks)
                       @ (if concatenate_raises e (map snd (S ra rt (path_stem script_path) chunks))
                               = None
                             \<and> sf_write_result e
                                 (write_calls w + length (A ra rt (path_stem script_path) chunks))
                                 (final_output_path e (path_stem script_path))
                                 (concat (map snd (S ra rt (path_stem script_path) chunks))) 24000
                               = Written
                          then [final_output_path e (path_stem script_path)] else [])), w')
     \<and> (concatenate_raises e (map snd (S ra rt (path_stem script_path) chunks)) = None
          \<and> sf_write_result e (write_calls w + length (A ra rt (path_stem script_path) chunks))
               (final_output_path e (path_stem script_path))
               (concat (map snd (S ra rt (path_stem script_path) chunks))) 24000 = Written
        \<longrightarrow> files w' (final_output_path e (path_stem script_path))
              = Some (Audio (concat (map snd (S ra rt (path_stem script_path) chunks))) 24000))
     \<and> (concatenate_raises e (map snd (S ra rt (path_stem script_path) chunks)) \<noteq> None
        \<longrightarrow> files w' (final_output_path e (path_stem script_path))
              = files w (final_output_path e (path_stem script_path)))
     \<and> (\<forall>err left.
          concatenate_raises e (map snd (S ra rt (path_stem script_path) chunks)) = None
          \<and> sf_write_result e (write_calls w + length (A ra rt (path_stem script_path) chunks))
               (final_output_path e (path_stem script_path))
               (concat (map snd (S ra rt (path_stem script_path) chunks))) 24000
               = WriteRaises err left
        \<longrightarrow> files w' (final_output_path e (path_stem script_path))
              = (case left of None \<Rightarrow> files w (final_output_path e (path_stem script_path))
                 | Some c \<Rightarrow> Some c))
     \<and> (\<forall>(k, a)\<in>set (S ra rt (path_stem script_path) chunks).
            files w' (chunk_output_path e (path_stem script_path) k) = Some (Audio a 24000))
     \<and> (\<forall>p. p \<noteq> final_output_path e (path_stem script_path)
            \<and> (\<forall>t\<in>set (A ra rt (path_stem script_path) chunks).
                  p \<noteq> chunk_output_path e (path_stem script_path) (fst t))
            \<longrightarrow> files w' p = files w p)
     \<and> sorted_wrt (<) (map fst (S ra rt (path_stem script_path) chunks))
     \<and> (\<forall>k a. (k, a) \<in> set (S ra rt (path_stem script_path) chunks) \<longrightarrow>
            k < length chunks \<and> infer e (infer_calls w + k) ra rt (chunks ! k) = Inr a)
     \<and> ((\<forall>n p d. sf_write_result e n p d 24000 = Written) \<longrightarrow>
          (\<forall>k a. (k, a) \<in> set (S ra rt (path_stem script_path) chunks) \<longleftrightarrow>
             k < length chunks \<and> infer e (infer_calls w + k) ra rt (chunks ! k) = Inr a))"
proof -
  let ?name = "path_stem script_path"
  let ?S = "successes e ra rt ?name (infer_calls w) (write_calls w) 0 chunks"
  let ?A = "write_attempts e ra rt ?name (infer_calls w) (write_calls w) 0 chunks"
  let ?final = "final_output_path e ?name"
  let ?gen = "map (\<lambda>(k, a). chunk_output_path e ?name k) ?S"
  let ?data = "concat (map snd ?S)"
  let ?merged = "concatenate_raises e (map snd ?S) = None
      \<and> sf_write_result e (write_calls w + length ?A) ?final ?data 24000 = Written"
  from generate_chunks_result [OF avail, of ?name ra rt up fo 0 chunks "[]"]
  obtain w1 where g:
    "generate_chunks e ?name ra rt up fo 0 chunks [] w = (Inr ?gen, w1)"
    "write_calls w1 = write_calls w + length ?A"
    "\<forall>(k, a)\<in>set ?S. files w1 (chunk_output_path e ?name k) = Some (Audio a 24000)"
    "\<forall>p. (\<forall>t\<in>set ?A. p \<noteq> chunk_output_path e ?name (fst t)) \<longrightarrow> files w1 p = files w p"
    by auto
  from some have ne: "?S \<noteq> []" by (simp add: S_def)
  then have gen_ne: "?gen \<noteq> []" by simp
  obtain ok w2 where m: "merge_audio_files e w1 ?gen ?final = (ok, w2)"
    by (cases "merge_audio_files e w1 ?gen ?final")
  have mg: "(ok, w2) =
      (case concatenate_raises e (map snd ?S) of
         Some err \<Rightarrow> (False, w1)
       | None \<Rightarrow>
           (case sf_write e w1 ?final ?data 24000 of
              (Inl err, w1') \<Rightarrow> (False, w1')
            | (Inr u, w1') \<Rightarrow> (True, w1')))"
    using merge_generated [OF ne g(3), of e ?final] m by simp
  have ok: "ok \<longleftrightarrow> ?merged"
    using mg g(2)
    by (auto simp: sf_write_def split: option.splits write_result.splits)
  have f2: "files w2 p = files w1 p" if "p \<noteq> ?final" for p
    using mg that
    by (auto simp: sf_write_def split: option.splits write_result.splits)
  have f2_final: "files w2 ?final = Some (Audio ?data 24000)" if ok
    using mg that
    by (auto simp: sf_write_def split: option.splits write_result.splits)
  define w3 where "w3 = (if ok \<and> up \<and> drive_manager w2 then upload_file w2 ?final fo else w2)"
  have f3: "files w3 = files w2"
    by (simp add: w3_def upload_file_def)
  have ps: "process_script e w script_path ra rt up fo
      = Some (Inr (?gen @ (if ?merged then [?final] else [])), w3)"
  proof (cases ok)
    case True
    with ok have "?merged" by simp
    with True script chunks g(1) gen_ne m show ?thesis
      by (simp add: process_script_def Let_def w3_def final_output_path_def)
  next
    case False
    with ok have "\<not> ?merged" by simp
    with False script chunks g(1) gen_ne m show ?thesis
      by (simp add: process_script_def Let_def w3_def final_output_path_def)
  qed
  have merged: "?merged \<longrightarrow> files w3 ?final = Some (Audio ?data 24000)"
    using ok f2_final f3 by simp
  have final_before: "files w1 ?final = files w ?final"
  proof -
    have "\<forall>t\<in>set ?A. ?final \<noteq> chunk_output_path e ?name (fst t)"
      using final_output_path_fresh by blast
    with g(4) show ?thesis by blast
  qed
  have unmerged1: "concatenate_raises e (map snd ?S) \<noteq> None
      \<longrightarrow> files w3 ?final = files w ?final"
    using mg final_before f3 by (auto split: option.splits)
  have unmerged2: "\<forall>err left. concatenate_raises e (map snd ?S) = None
        \<and> sf_write_result e (write_calls w + length ?A) ?final ?data 24000 = WriteRaises err left
      \<longrightarrow> files w3 ?final = (case left of None \<Rightarrow> files w ?final | Some c \<Rightarrow> Some c)"
    using mg g(2) final_before f3
    by (auto simp: sf_write_def split: option.splits write_result.splits)
  have kept: "\<forall>(k, a)\<in>set ?S. files w3 (chunk_output_path e ?name k) = Some (Audio a 24000)"
  proof (clarify)
    fix k a
    assume ka: "(k, a) \<in> set ?S"
    have "chunk_output_path e ?name k \<noteq> ?final"
      using final_output_path_fresh [of e ?name ?name k] by simp
    then have "files w3 (chunk_output_path e ?name k) = files w1 (chunk_output_path e ?name k)"
      by (simp add: f3 f2)
    with g(3) ka show "files w3 (chunk_output_path e ?name k) = Some (Audio a 24000)"
      by auto
  qed
  have others: "\<forall>p. p \<noteq> ?final \<and> (\<forall>t\<in>set ?A. p \<noteq> chunk_output_path e ?name (fst t))
      \<longrightarrow> files w3 p = files w p"
    using g(4) by (simp add: f3 f2)
  have srt: "sorted_wrt (<) (map fst ?S)" by (rule successes_sorted)
  have mem: "\<forall>k a. (k, a) \<in> set ?S \<longrightarrow>
      k < length chunks \<and> infer e (infer_calls w + k) ra rt (chunks ! k) = Inr a"
    using successes_infer by blast
  have iff: "(\<forall>n p d. sf_write_result e n p d 24000 = Written) \<longrightarrow>
      (\<forall>k a. (k, a) \<in> set ?S \<longleftrightarrow>
         k < length chunks \<and> infer e (infer_calls w + k) ra rt (chunks ! k) = Inr a)"
    using successes_all_written by blast
  show ?thesis
    unfolding S_def A_def
    by (rule exI [of _ w3]) (intro conjI ps merged unmerged1 unmerged2 kept others srt mem iff)
qed

text \<open>
  C2 (as the code has it). Let the script be readable, let \<open>chunks\<close> be its segments, let
  the model be loaded or loadable (so that \<open>infer\<close> is called), and let at least one
  segment succeed: its \<open>infer\<close> call returns and its chunk file is written. Then
  \<open>process_script\<close> returns the chunk files of the successful segments \<open>S\<close>, in the order of
  their indices, and each of them holds the samples of its segment: a failed segment is
  skipped and does not stop the loop. The merged file follows them in the list exactly
  when the merge succeeds, that is when \<open>np.concatenate\<close> does not raise and the write of
  the merged file (the next write after those of the loop) succeeds; it then holds exactly
  the samples of the successful segments, concatenated in that order. When the merge
  fails, the list ends with the chunk files, and the path of the merged file holds what it
  held before or what the failed write left there. No file other than the merged file and
  the chunk files whose write was attempted has changed. Every successful segment is one
  whose \<open>infer\<close> call returned its samples, and when no write fails these are all the
  successful segments.
\<close>

theorem process_script_skips_failed_segments:
  fixes e :: env and w :: state
  defines "A \<equiv> \<lambda>ra rt name chunks.
      write_attempts e ra rt name (infer_calls w) (write_calls w) 0 chunks"
    and "S \<equiv> \<lambda>ra rt name chunks.
      successes e ra rt name (infer_calls w) (write_calls w) 0 chunks"
  assumes avail: "f5tts_model w \<or> load_f5tts e = Inr ()"
    and script: "read_text w script_path = Inr raw"
    and chunks: "chunk_text (strip raw) 500 = Some chunks"
    and some: "S ra rt (path_stem script_path) chunks \<noteq> []"
  shows "\<exists>w'. process_script e w script_path ra rt up fo =
            Some (Inr (map (\<lambda>(k, a). chunk_output_path e (path_stem script_path) k)
                         (S ra rt (path_stem script_path) chunks)
                       @ (if concatenate_raises e (map snd (S ra rt (path_stem script_path) chunks))
                               = None
                             \<and> sf_write_result e
                                 (write_calls w + length (A ra rt (path_stem script_path) chunks))
                                 (final_output_path e (path_stem script_path))
                                 (concat (map snd (S ra rt (path_stem script_path) chunks))) 24000
                               = Written
                          then [final_output_path e (path_stem script_path)] else [])), w')
     \<and> (concatenate_raises e (map snd (S ra rt (path_stem script_path) chunks)) = None
          \<and> sf_write_result e (write_calls w + length (A ra rt (path_stem script_path) chunks))
               (final_output_path e (path_stem script_path))
               (concat (map snd (S ra rt (path_stem script_path) chunks))) 24000 = Written
        \<longrightarrow> files w' (final_output_path e (path_stem script_path))
              = Some (Audio (concat (map snd (S ra rt (path_stem script_path) chunks))) 24000))
     \<and> (concatenate_raises e (map snd (S ra rt (path_stem script_path) chunks)) \<noteq> None
        \<longrightarrow> files w' (final_output_path e (path_stem script_path))
              = files w (final_output_path e (path_stem script_path)))
     \<and> (\<forall>err left.
          concatenate_raises e (map snd (S ra rt (path_stem script_path) chunks)) = None
          \<and> sf_write_result e (write_calls w + length (A ra rt (path_stem script_path) chunks))
               (final_output_path e (path_stem script_path))
               (concat (map snd (S ra rt (path_stem script_path) chunks))) 24000
               = WriteRaises err left
        \<longrightarrow> files w' (final_output_path e (path_stem script_path))
              = (case left of None \<Rightarrow> files w (final_output_path e (path_stem script_path))
                 | Some c \<Rightarrow> Some c))
     \<and> (\<forall>(k, a)\<in>set (S ra rt (path_stem script_path) chunks).
            files w' (chunk_output_path e (path_stem script_path) k) = Some (Audio a 24000))
     \<and> (\<forall>p. p \<noteq> final_output_path e (path_stem script_path)
            \<and> (\<forall>t\<in>set (A ra rt (path_stem script_path) chunks).
                  p \<noteq> chunk_output_path e (path_stem script_path) (fst t))
            \<longrightarrow> files w' p = files w p)
     \<and> sorted_wrt (<) (map fst (S ra rt (path_stem script_path) chunks))
     \<and> (\<forall>k a. (k, a) \<in> set (S ra rt (path_stem script_path) chunks) \<longrightarrow>
            k < length chunks \<and> infer e (infer_calls w + k) ra rt (chunks ! k) = Inr a)
     \<and> ((\<forall>n p d. sf_write_result e n p d 24000 = Written) \<longrightarrow>
          (\<forall>k a. (k, a) \<in> set (S ra rt (path_stem script_path) chunks) \<longleftrightarrow>
             k < length chunks \<and> infer e (infer_calls w + k) ra rt (chunks ! k) = Inr a))"
  unfolding A_def S_def
  using process_script_result [OF avail script chunks, of ra rt up fo] some
  unfolding S_def by blast

subsection \<open>A script of five segments\<close>

lemma rfind_at_end: "rfind (xs @ d) d = int (length xs)"
proof -
  have occ: "occurs_at (xs @ d) d (length xs)"
    by (simp add: occurs_at_def)
  then have "rfind (xs @ d) d \<noteq> - 1"
    using rfind_none by blast
  from rfind_some [OF this] obtain i where i: "rfind (xs @ d) d = int i"
    "occurs_at (xs @ d) d i" "\<forall>j. occurs_at (xs @ d) d j \<longrightarrow> j \<le> i" by blast
  from i(3) occ have "length xs \<le> i" by blast
  moreover from i(2) have "i \<le> length xs" by (simp add: occurs_at_def)
  ultimately show ?thesis using i(1) by simp
qed

lemma strip_keeps:
  assumes "s \<noteq> []" "\<not> isspace (hd s)" "\<not> isspace (last s)"
  shows "strip s = s"
proof -
  from assms(1,2) have a: "dropWhile isspace s = s"
    by (cases s) simp_all
  from assms(1,3) have "dropWhile isspace (rev s) = rev s"
    by (cases "rev s") (simp_all add: hd_rev [symmetric] del: hd_rev)
  with a show ?thesis by (simp add: strip_def)
qed

lemma strip_trailing_space:
  assumes "s \<noteq> []" "\<not> isspace (hd s)" "\<not> isspace (last s)"
  shows "strip (s @ '' '') = s"
proof -
  from assms(1,2) have a: "dropWhile isspace (s @ '' '') = s @ '' ''"
    by (cases s) simp_all
  have sp: "isspace CHR '' ''" by (simp add: isspace_def)
  from assms(1,3) have "dropWhile isspace (rev s) = rev s"
    by (cases "rev s") (simp_all add: hd_rev [symmetric] del: hd_rev)
  with a sp show ?thesis by (simp add: strip_def)
qed

lemma length_sentence: "length sentence = 500" "length last_sentence = 499"
  by (simp_all add: sentence_def last_sentence_def)

lemma strip_sentence: "strip sentence = last_sentence" "strip last_sentence = last_sentence"
proof -
  have ne: "last_sentence \<noteq> []" "\<not> isspace (hd last_sentence)" "\<not> isspace (last last_sentence)"
    by (simp_all add: last_sentence_def isspace_def hd_append)
  have "sentence = last_sentence @ '' ''"
    by (simp add: sentence_def last_sentence_def)
  then show "strip sentence = last_sentence"
    using strip_trailing_space [OF ne] by simp
  show "strip last_sentence = last_sentence"
    by (rule strip_keeps [OF ne])
qed

lemma strip_five_sentences: "strip five_sentences = five_sentences"
proof (rule strip_keeps)
  show "five_sentences \<noteq> []"
    by (simp add: five_sentences_def sentence_def)
  show "\<not> isspace (hd five_sentences)"
    by (simp add: five_sentences_def sentence_def isspace_def hd_append)
  show "\<not> isspace (last five_sentences)"
    by (simp add: five_sentences_def last_sentence_def isspace_def)
qed

lemma next_end_pos_sentence:
  assumes "py_slice text cur (cur + 500) = sentence"
  shows "next_end_pos text 500 cur = cur + 500"
proof -
  have "sentence = replicate 498 CHR ''a'' @ [CHR ''.'', CHR '' '']"
    by (simp add: sentence_def)
  then have "rfind sentence [CHR ''.'', CHR '' ''] = 498"
    using rfind_at_end [of "replicate 498 CHR ''a''" "[CHR ''.'', CHR '' '']"] by simp
  with assms show ?thesis
    by (simp add: next_end_pos_def Let_def delimiters_def)
qed

lemma five_sentences_slices:
  "py_slice five_sentences 0 500 = sentence"
  "py_slice five_sentences 500 1000 = sentence"
  "py_slice five_sentences 1000 1500 = sentence"
  "py_slice five_sentences 1500 2000 = sentence"
  "py_slice_from five_sentences 2000 = last_sentence"
  "length five_sentences = 2499"
  by (simp_all add: py_slice_inside py_slice_from_inside five_sentences_def length_sentence)

lemma chunk_text_five_sentences:
  "chunk_text five_sentences 500 =
     Some [last_sentence, last_sentence, last_sentence, last_sentence, last_sentence]"
proof -
  have n: "next_end_pos five_sentences 500 0 = 500"
    "next_end_pos five_sentences 500 500 = 1000"
    "next_end_pos five_sentences 500 1000 = 1500"
    "next_end_pos five_sentences 500 1500 = 2000"
    using next_end_pos_sentence [of five_sentences 0] next_end_pos_sentence [of five_sentences 500]
      next_end_pos_sentence [of five_sentences 1000] next_end_pos_sentence [of five_sentences 1500]
    by (simp_all add: five_sentences_slices)
  have "chunk_loop five_sentences 500 0 [] = chunk_loop five_sentences 500 500 [last_sentence]"
    by (subst chunk_loop_step) (simp_all add: n five_sentences_slices strip_sentence)
  also have "\<dots> = chunk_loop five_sentences 500 1000 [last_sentence, last_sentence]"
    by (subst chunk_loop_step) (simp_all add: n five_sentences_slices strip_sentence)
  also have "\<dots> = chunk_loop five_sentences 500 1500 [last_sentence, last_sentence, last_sentence]"
    by (subst chunk_loop_step) (simp_all add: n five_sentences_slices strip_sentence)
  also have "\<dots> = chunk_loop five_sentences 500 2000
      [last_sentence, last_sentence, last_sentence, last_sentence]"
    by (subst chunk_loop_step) (simp_all add: n five_sentences_slices strip_sentence)
  also have "\<dots> = Some [last_sentence, last_sentence, last_sentence, last_sentence, last_sentence]"
    by (subst chunk_loop_last) (simp_all add: five_sentences_slices strip_sentence)
  finally show ?thesis
    by (simp add: chunk_text_def five_sentences_slices)
qed

text \<open>
  C2 as the claim states it fails: the third of five segments fails and the other four
  succeed, but the write of the merged file raises. \<open>process_script\<close> returns the four
  chunk files, and there is no merged file.
\<close>

theorem process_script_no_merged_file_counterexample:
  "load_f5tts merge_fails_env = Inr ()
   \<and> read_text script_state [''scripts'', ''talk.txt''] = Inr five_sentences
   \<and> chunk_text (strip five_sentences) 500 =
        Some [last_sentence, last_sentence, last_sentence, last_sentence, last_sentence]
   \<and> infer merge_fails_env 2 [''ref.wav''] ''ref'' last_sentence = Inl InferenceError
   \<and> successes merge_fails_env [''ref.wav''] ''ref'' ''talk'' (infer_calls script_state)
        (write_calls script_state) 0
        [last_sentence, last_sentence, last_sentence, last_sentence, last_sentence]
        = [(0, [0]), (1, [1]), (3, [3]), (4, [4])]
   \<and> sf_write_result merge_fails_env 4
        [''project'', ''output'', ''generated_audio'', ''talk_complete.wav''] [0, 1, 3, 4] 24000
        = WriteRaises SoundFileError None
   \<and> result_of (process_script merge_fails_env script_state [''scripts'', ''talk.txt'']
                  [''ref.wav''] ''ref'' False None) =
        Some (Inr [[''project'', ''temp'', ''talk_chunk_001.wav''],
                   [''project'', ''temp'', ''talk_chunk_002.wav''],
                   [''project'', ''temp'', ''talk_chunk_004.wav''],
                   [''project'', ''temp'', ''talk_chunk_005.wav'']])
   \<and> disk_after (process_script merge_fails_env script_state [''scripts'', ''talk.txt'']
                   [''ref.wav''] ''ref'' False None)
          [''project'', ''output'', ''generated_audio'', ''talk_complete.wav''] = None"
proof -
  let ?chunks = "[last_sentence, last_sentence, last_sentence, last_sentence, last_sentence]"
  let ?script = "[''scripts'', ''talk.txt'']"
  let ?S = "[(0, [0]), (1, [1]), (3, [3]), (4, [4])] :: (nat \<times> int list) list"
  let ?final = "[''project'', ''output'', ''generated_audio'', ''talk_complete.wav'']"
  let ?run = "process_script merge_fails_env script_state ?script [''ref.wav''] ''ref'' False None"
  have avail: "f5tts_model script_state \<or> load_f5tts merge_fails_env = Inr ()"
    by (simp add: merge_fails_env_def)
  have script: "read_text script_state ?script = Inr five_sentences"
    by (simp add: read_text_def script_state_def)
  have chunks: "chunk_text (strip five_sentences) 500 = Some ?chunks"
    by (simp add: strip_five_sentences chunk_text_five_sentences)
  have third: "infer merge_fails_env 2 [''ref.wav''] ''ref'' last_sentence = Inl InferenceError"
    by (simp add: merge_fails_env_def infer_fails_third_def)
  have A: "write_attempts merge_fails_env [''ref.wav''] ''ref'' ''talk'' (infer_calls script_state)
      (write_calls script_state) 0 ?chunks
      = [(0, [0], Written), (1, [1], Written), (3, [3], Written), (4, [4], Written)]"
    by (simp add: script_state_def merge_fails_env_def infer_fails_third_def fifth_write_fails_def)
  then have S: "successes merge_fails_env [''ref.wav''] ''ref'' ''talk'' (infer_calls script_state)
      (write_calls script_state) 0 ?chunks = ?S"
    by (simp add: successes_def)
  have stem: "path_stem ?script = ''talk''" by code_simp
  have some: "successes merge_fails_env [''ref.wav''] ''ref'' (path_stem ?script)
      (infer_calls script_state) (write_calls script_state) 0 ?chunks \<noteq> []"
    unfolding stem S by simp
  have names: "chunk_output_path merge_fails_env ''talk'' 0 = [''project'', ''temp'', ''talk_chunk_001.wav'']"
    "chunk_output_path merge_fails_env ''talk'' (Suc 0) = [''project'', ''temp'', ''talk_chunk_002.wav'']"
    "chunk_output_path merge_fails_env ''talk'' 2 = [''project'', ''temp'', ''talk_chunk_003.wav'']"
    "chunk_output_path merge_fails_env ''talk'' 3 = [''project'', ''temp'', ''talk_chunk_004.wav'']"
    "chunk_output_path merge_fails_env ''talk'' 4 = [''project'', ''temp'', ''talk_chunk_005.wav'']"
    "final_output_path merge_fails_env ''talk'' = ?final"
    by code_simp+
  have conc: "concatenate_raises merge_fails_env (map snd ?S) = None"
    by (simp add: merge_fails_env_def concatenate_works_def)
  have wr: "sf_write_result merge_fails_env
      (write_calls script_state + length [(0, [0], Written), (1, [1], Written), (3, [3], Written), (4, [4], Written)
            :: nat \<times> int list \<times> write_result]) ?final
      (concat (map snd ?S)) 24000 = WriteRaises SoundFileError None"
    by (simp add: merge_fails_env_def fifth_write_fails_def script_state_def)
  have wr': "sf_write_result merge_fails_env 4 ?final [0, 1, 3, 4] 24000
      = WriteRaises SoundFileError None"
    by (simp add: merge_fails_env_def fifth_write_fails_def)
  from process_script_result [OF avail script chunks some, of False None]
  obtain w' where h:
    "?run = Some (Inr (map (\<lambda>(k, a). chunk_output_path merge_fails_env ''talk'' k) ?S
        @ (if concatenate_raises merge_fails_env (map snd ?S) = None
              \<and> sf_write_result merge_fails_env
                  (write_calls script_state + length [(0, [0], Written), (1, [1], Written), (3, [3], Written), (4, [4], Written)
            :: nat \<times> int list \<times> write_result]) ?final
                  (concat (map snd ?S)) 24000 = Written
           then [?final] else [])), w')"
    "\<forall>err left. concatenate_raises merge_fails_env (map snd ?S) = None
        \<and> sf_write_result merge_fails_env
            (write_calls script_state + length [(0, [0], Written), (1, [1], Written), (3, [3], Written), (4, [4], Written)
            :: nat \<times> int list \<times> write_result]) ?final
            (concat (map snd ?S)) 24000 = WriteRaises err left
      \<longrightarrow> files w' ?final = (case left of None \<Rightarrow> files script_state ?final | Some c \<Rightarrow> Some c)"
    unfolding stem S A names(6) by blast
  from h(1) have run: "?run
      = Some (Inr (map (\<lambda>(k, a). chunk_output_path merge_fails_env ''talk'' k) ?S), w')"
    unfolding wr by simp
  from h(2) conc wr have "files w' ?final
      = (case None of None \<Rightarrow> files script_state ?final | Some c \<Rightarrow> Some c)"
    by blast
  then have nofile: "files w' ?final = None"
    by (simp add: script_state_def)
  have l: "load_f5tts merge_fails_env = Inr ()" by (simp add: merge_fails_env_def)
  have r1: "result_of ?run =
        Some (Inr [[''project'', ''temp'', ''talk_chunk_001.wav''],
                   [''project'', ''temp'', ''talk_chunk_002.wav''],
                   [''project'', ''temp'', ''talk_chunk_004.wav''],
                   [''project'', ''temp'', ''talk_chunk_005.wav'']])"
    unfolding run by (simp add: result_of_def names)
  have r2: "disk_after ?run ?final = None"
    unfolding run using nofile by (simp add: disk_after_def)
  show ?thesis by (intro conjI l script chunks third S wr' r1 r2)
qed

theorem process_script_skips_failed_segments_witness:
  "load_f5tts working_env = Inr ()
   \<and> read_text script_state [''scripts'', ''talk.txt''] = Inr five_sentences
   \<and> chunk_text (strip five_sentences) 500 =
        Some [last_sentence, last_sentence, last_sentence, last_sentence, last_sentence]
   \<and> infer working_env 2 [''ref.wav''] ''ref'' last_sentence = Inl InferenceError
   \<and> successes working_env [''ref.wav''] ''ref'' ''talk'' (infer_calls script_state)
        (write_calls script_state) 0
        [last_sentence, last_sentence, last_sentence, last_sentence, last_sentence]
        = [(0, [0]), (1, [1]), (3, [3]), (4, [4])]
   \<and> result_of (process_script working_env script_state [''scripts'', ''talk.txt'']
                  [''ref.wav''] ''ref'' False None) =
        Some (Inr [[''project'', ''temp'', ''talk_chunk_001.wav''],
                   [''project'', ''temp'', ''talk_chunk_002.wav''],
                   [''project'', ''temp'', ''talk_chunk_004.wav''],
                   [''project'', ''temp'', ''talk_chunk_005.wav''],
                   [''project'', ''output'', ''generated_audio'', ''talk_complete.wav'']])
   \<and> disk_after (process_script working_env script_state [''scripts'', ''talk.txt'']
                   [''ref.wav''] ''ref'' False None)
          [''project'', ''output'', ''generated_audio'', ''talk_complete.wav'']
        = Some (Audio [0, 1, 3, 4] 24000)
   \<and> disk_after (process_script working_env script_state [''scripts'', ''talk.txt'']
                   [''ref.wav''] ''ref'' False None)
          [''project'', ''temp'', ''talk_chunk_003.wav''] = None"
proof -
  let ?chunks = "[last_sentence, last_sentence, last_sentence, last_sentence, last_sentence]"
  let ?script = "[''scripts'', ''talk.txt'']"
  let ?S = "[(0, [0]), (1, [1]), (3, [3]), (4, [4])] :: (nat \<times> int list) list"
  let ?final = "[''project'', ''output'', ''generated_audio'', ''talk_complete.wav'']"
  let ?run = "process_script working_env script_state ?script [''ref.wav''] ''ref'' False None"
  have avail: "f5tts_model script_state \<or> load_f5tts working_env = Inr ()"
    by (simp add: working_env_def)
  have script: "read_text script_state ?script = Inr five_sentences"
    by (simp add: read_text_def script_state_def)
  have chunks: "chunk_text (strip five_sentences) 500 = Some ?chunks"
    by (simp add: strip_five_sentences chunk_text_five_sentences)
  have third: "infer working_env 2 [''ref.wav''] ''ref'' last_sentence = Inl InferenceError"
    by (simp add: working_env_def infer_fails_third_def)
  have A: "write_attempts working_env [''ref.wav''] ''ref'' ''talk'' (infer_calls script_state)
      (write_calls script_state) 0 ?chunks
      = [(0, [0], Written), (1, [1], Written), (3, [3], Written), (4, [4], Written)]"
    by (simp add: script_state_def working_env_def infer_fails_third_def writes_succeed_def)
  then have S: "successes working_env [''ref.wav''] ''ref'' ''talk'' (infer_calls script_state)
      (write_calls script_state) 0 ?chunks = ?S"
    by (simp add: successes_def)
  have stem: "path_stem ?script = ''talk''" by code_simp
  have some: "successes working_env [''ref.wav''] ''ref'' (path_stem ?script)
      (infer_calls script_state) (write_calls script_state) 0 ?chunks \<noteq> []"
    unfolding stem S by simp
  have names: "chunk_output_path working_env ''talk'' 0 = [''project'', ''temp'', ''talk_chunk_001.wav'']"
    "chunk_output_path working_env ''talk'' (Suc 0) = [''project'', ''temp'', ''talk_chunk_002.wav'']"
    "chunk_output_path working_env ''talk'' 2 = [''project'', ''temp'', ''talk_chunk_003.wav'']"
    "chunk_output_path working_env ''talk'' 3 = [''project'', ''temp'', ''talk_chunk_004.wav'']"
    "chunk_output_path working_env ''talk'' 4 = [''project'', ''temp'', ''talk_chunk_005.wav'']"
    "final_output_path working_env ''talk'' = ?final"
    by code_simp+
  have conc: "concatenate_raises working_env (map snd ?S) = None"
    by (simp add: working_env_def concatenate_works_def)
  have wr: "sf_write_result working_env
      (write_calls script_state + length [(0, [0], Written), (1, [1], Written), (3, [3], Written), (4, [4], Written)
            :: nat \<times> int list \<times> write_result]) ?final
      (concat (map snd ?S)) 24000 = Written"
    by (simp add: working_env_def writes_succeed_def)
  from process_script_skips_failed_segments [OF avail script chunks some, of False None]
  obtain w' where h0:
    "?run = Some (Inr (map (\<lambda>(k, a). chunk_output_path working_env ''talk'' k) ?S
        @ (if concatenate_raises working_env (map snd ?S) = None
              \<and> sf_write_result working_env
                  (write_calls script_state + length [(0, [0], Written), (1, [1], Written), (3, [3], Written), (4, [4], Written)
            :: nat \<times> int list \<times> write_result]) ?final
                  (concat (map snd ?S)) 24000 = Written
           then [?final] else [])), w')"
    "concatenate_raises working_env (map snd ?S) = None
        \<and> sf_write_result working_env
            (write_calls script_state + length [(0, [0], Written), (1, [1], Written), (3, [3], Written), (4, [4], Written)
            :: nat \<times> int list \<times> write_result]) ?final
            (concat (map snd ?S)) 24000 = Written
      \<longrightarrow> files w' ?final = Some (Audio (concat (map snd ?S)) 24000)"
    "\<forall>p. p \<noteq> ?final
        \<and> (\<forall>t\<in>set [(0, [0], Written), (1, [1], Written), (3, [3], Written), (4, [4], Written)
            :: nat \<times> int list \<times> write_result].
              p \<noteq> chunk_output_path working_env ''talk'' (fst t))
        \<longrightarrow> files w' p = files script_state p"
    unfolding stem S A names(6) by blast
  from h0(1) have run: "?run
      = Some (Inr (map (\<lambda>(k, a). chunk_output_path working_env ''talk'' k) ?S @ [?final]), w')"
    unfolding wr conc by simp
  from h0(2) conc wr have merged: "files w' ?final = Some (Audio (concat (map snd ?S)) 24000)"
    by blast
  have "files w' [''project'', ''temp'', ''talk_chunk_003.wav'']
      = files script_state [''project'', ''temp'', ''talk_chunk_003.wav'']"
    using h0(3) [rule_format, of "[''project'', ''temp'', ''talk_chunk_003.wav'']"]
    by (simp add: names)
  then have skipped: "files w' [''project'', ''temp'', ''talk_chunk_003.wav''] = None"
    by (simp add: script_state_def)
  have l: "load_f5tts working_env = Inr ()" by (simp add: working_env_def)
  have r1: "result_of ?run =
        Some (Inr [[''project'', ''temp'', ''talk_chunk_001.wav''],
                   [''project'', ''temp'', ''talk_chunk_002.wav''],
                   [''project'', ''temp'', ''talk_chunk_004.wav''],
                   [''project'', ''temp'', ''talk_chunk_005.wav''], ?final])"
    unfolding run by (simp add: result_of_def names)
  have r2: "disk_after ?run ?final = Some (Audio [0, 1, 3, 4] 24000)"
    unfolding run using merged by (simp add: disk_after_def)
  have r3: "disk_after ?run [''project'', ''temp'', ''talk_chunk_003.wav''] = None"
    unfolding run using skipped by (simp add: disk_after_def)
  show ?thesis by (intro conjI l script chunks third S r1 r2 r3)
qed

section \<open>The loop over the scripts\<close>

lemma process_script_returns:
  "\<exists>r. process_script e w script_path ra rt up fo = Some r"
proof -
  have c: "chunk_text t 500 \<noteq> None" for t
    using chunk_text_returns [of 500 t] by auto
  show ?thesis
  proof (cases "read_text w script_path")
    case (Inl err)
    then show ?thesis by (simp add: process_script_def)
  next
    case (Inr raw)
    from c [of "strip raw"] obtain chunks where "chunk_text (strip raw) 500 = Some chunks"
      by blast
    with Inr show ?thesis
      by (simp add: process_script_def Let_def
          split: sum.splits option.splits prod.splits bool.splits)
  qed
qed

lemma run_scripts_acc:
  "run_scripts e cfg ra rt scripts (w, fs, pr) =
   map_option (\<lambda>(w', fs', pr'). (w', fs @ fs', pr @ pr'))
     (run_scripts e cfg ra rt scripts (w, [], []))"
proof (induction scripts arbitrary: w fs pr)
  case Nil
  then show ?case by simp
next
  case (Cons x rest)
  let ?up = "config_get (auto_upload cfg) True"
  from process_script_returns obtain r where
    r: "process_script e w x ra rt ?up (output_folder_id cfg) = Some r" by blast
  obtain res w1 where rw: "r = (res, w1)" by (cases r)
  show ?case
  proof (cases res)
    case (Inl err)
    with r rw show ?thesis
      using Cons.IH [of w1 fs "pr @ [Failed x err]"] Cons.IH [of w1 "[]" "[Failed x err]"]
      by (simp add: option.map_comp comp_def case_prod_beta)
  next
    case (Inr g)
    with r rw show ?thesis
      using Cons.IH [of w1 "fs @ g" "pr @ [Complete x (length g)]"]
        Cons.IH [of w1 g "[Complete x (length g)]"]
      by (simp add: option.map_comp comp_def case_prod_beta)
  qed
qed

lemma run_scripts_returns:
  "\<exists>w' fs pr. run_scripts e cfg ra rt scripts (w, [], []) = Some (w', fs, pr)
     \<and> length pr = length scripts"
proof (induction scripts arbitrary: w)
  case Nil
  then show ?case by simp
next
  case (Cons x rest)
  let ?up = "config_get (auto_upload cfg) True"
  from process_script_returns obtain r where
    r: "process_script e w x ra rt ?up (output_folder_id cfg) = Some r" by blast
  obtain res w1 where rw: "r = (res, w1)" by (cases r)
  from Cons.IH [of w1] obtain w' fs pr where IH:
    "run_scripts e cfg ra rt rest (w1, [], []) = Some (w', fs, pr)" "length pr = length rest"
    by blast
  show ?case
  proof (cases res)
    case (Inl err)
    with r rw IH show ?thesis
      using run_scripts_acc [of e cfg ra rt rest w1 "[]" "[Failed x err]"] by simp
  next
    case (Inr g)
    with r rw IH show ?thesis
      using run_scripts_acc [of e cfg ra rt rest w1 g "[Complete x (length g)]"] by simp
  qed
qed

lemma run_scripts_append:
  "run_scripts e cfg ra rt (xs @ ys) st =
   (case run_scripts e cfg ra rt xs st of None \<Rightarrow> None | Some st' \<Rightarrow> run_scripts e cfg ra rt ys st')"
proof (induction xs arbitrary: st)
  case Nil
  then show ?case by simp
next
  case (Cons x xs)
  obtain w fs pr where st: "st = (w, fs, pr)" by (cases st)
  show ?case
    unfolding st using Cons.IH
    by (simp split: option.splits sum.splits prod.splits)
qed

text \<open>
  C9. Let the scripts before \<open>script\<close> have been processed, leaving the state \<open>w1\<close>, and
  let processing \<open>script\<close> raise \<open>err\<close>. Then the run over all the scripts still returns:
  it prints the failure of \<open>script\<close>, adds none of its files, and goes on to the scripts
  after it, which are processed exactly as a run of their own started in the state the
  failed script left; every one of them gets its outcome printed.
\<close>

theorem run_pipeline_isolates_failures:
  assumes "run_pipeline e cfg w ra rt before = Some (w1, files1, printed1)"
    and "process_script e w1 script ra rt (config_get (auto_upload cfg) True)
           (output_folder_id cfg) = Some (Inl err, w2)"
  shows "\<exists>w3 files3 printed3.
       run_scripts e cfg ra rt after (w2, [], []) = Some (w3, files3, printed3)
     \<and> length printed3 = length after
     \<and> run_pipeline e cfg w ra rt (before @ script # after) =
         Some (w3, files1 @ files3, printed1 @ [Failed script err] @ printed3)"
proof -
  from run_scripts_returns [of e cfg ra rt after w2] obtain w3 files3 printed3 where a:
    "run_scripts e cfg ra rt after (w2, [], []) = Some (w3, files3, printed3)"
    "length printed3 = length after" by blast
  have "run_scripts e cfg ra rt (script # after) (w1, files1, printed1) =
      run_scripts e cfg ra rt after (w2, files1, printed1 @ [Failed script err])"
    using assms(2) by simp
  also have "\<dots> = Some (w3, files1 @ files3, (printed1 @ [Failed script err]) @ printed3)"
    using run_scripts_acc [of e cfg ra rt after w2 files1 "printed1 @ [Failed script err]"] a(1)
    by simp
  finally have "run_pipeline e cfg w ra rt (before @ script # after) =
      Some (w3, files1 @ files3, printed1 @ [Failed script err] @ printed3)"
    using assms(1) by (simp add: run_pipeline_def Let_def run_scripts_append)
  with a show ?thesis by blast
qed

theorem run_pipeline_isolates_failures_witness:
  "run_pipeline working_env small_chunk_config hello_state [''ref.wav''] ''ref'' []
     = Some (hello_state, [], [])
   \<and> process_script working_env hello_state [''scripts'', ''missing.txt''] [''ref.wav''] ''ref''
       (config_get (auto_upload small_chunk_config) True) (output_folder_id small_chunk_config)
     = Some (Inl FileNotFoundError, hello_state)
   \<and> map_option (snd \<circ> snd)
        (run_pipeline working_env small_chunk_config hello_state [''ref.wav''] ''ref''
           [[''scripts'', ''missing.txt''], [''scripts'', ''hello.txt'']])
     = Some [Failed [''scripts'', ''missing.txt''] FileNotFoundError,
             Complete [''scripts'', ''hello.txt''] 2]
   \<and> map_option (fst \<circ> snd)
        (run_pipeline working_env small_chunk_config hello_state [''ref.wav''] ''ref''
           [[''scripts'', ''missing.txt''], [''scripts'', ''hello.txt'']])
     = Some [[''project'', ''temp'', ''hello_chunk_001.wav''],
             [''project'', ''output'', ''generated_audio'', ''hello_complete.wav'']]"
proof -
  let ?missing = "[''scripts'', ''missing.txt'']"
  let ?hello = "[''scripts'', ''hello.txt'']"
  have before: "run_pipeline working_env small_chunk_config hello_state [''ref.wav''] ''ref'' []
     = Some (hello_state, [], [])"
    by (simp add: run_pipeline_def small_chunk_config_def config_get_def)
  have fail: "process_script working_env hello_state ?missing [''ref.wav''] ''ref''
       (config_get (auto_upload small_chunk_config) True) (output_folder_id small_chunk_config)
     = Some (Inl FileNotFoundError, hello_state)"
    by (simp add: process_script_def read_text_def hello_state_def)
  have ev: "map_option snd (run_scripts working_env small_chunk_config [''ref.wav''] ''ref''
       [?hello] (hello_state, [], []))
     = Some ([[''project'', ''temp'', ''hello_chunk_001.wav''],
              [''project'', ''output'', ''generated_audio'', ''hello_complete.wav'']],
             [Complete ?hello 2])"
    by code_simp
  from run_pipeline_isolates_failures [OF before fail, of "[?hello]"]
  obtain w3 files3 printed3 where a:
    "run_scripts working_env small_chunk_config [''ref.wav''] ''ref'' [?hello] (hello_state, [], [])
       = Some (w3, files3, printed3)"
    "run_pipeline working_env small_chunk_config hello_state [''ref.wav''] ''ref''
       ([] @ ?missing # [?hello])
       = Some (w3, [] @ files3, [] @ [Failed ?missing FileNotFoundError] @ printed3)"
    by blast
  from a(1) ev have "files3 = [[''project'', ''temp'', ''hello_chunk_001.wav''],
              [''project'', ''output'', ''generated_audio'', ''hello_complete.wav'']]"
    "printed3 = [Complete ?hello 2]"
    by simp_all
  with a(2) have "run_pipeline working_env small_chunk_config hello_state [''ref.wav''] ''ref''
       [?missing, ?hello]
       = Some (w3, [[''project'', ''temp'', ''hello_chunk_001.wav''],
                    [''project'', ''output'', ''generated_audio'', ''hello_complete.wav'']],
               [Failed ?missing FileNotFoundError, Complete ?hello 2])"
    by simp
  then have "map_option (snd \<circ> snd)
        (run_pipeline working_env small_chunk_config hello_state [''ref.wav''] ''ref''
           [?missing, ?hello])
     = Some [Failed ?missing FileNotFoundError, Complete ?hello 2]"
    "map_option (fst \<circ> snd)
        (run_pipeline working_env small_chunk_config hello_state [''ref.wav''] ''ref''
           [?missing, ?hello])
     = Some [[''project'', ''temp'', ''hello_chunk_001.wav''],
             [''project'', ''output'', ''generated_audio'', ''hello_complete.wav'']]"
    by simp_all
  with before fail show ?thesis by (intro conjI)
qed

section \<open>The configured segment length\<close>

lemma run_scripts_chunk_size:
  "run_scripts e (cfg\<lparr>chunk_size := c\<rparr>) ra rt scripts st = run_scripts e cfg ra rt scripts st"
proof (induction scripts arbitrary: st)
  case Nil
  then show ?case by simp
next
  case (Cons x rest)
  obtain w fs pr where st: "st = (w, fs, pr)" by (cases st)
  show ?case
    unfolding st using Cons.IH
    by (simp split: option.splits sum.splits prod.splits)
qed

text \<open>
  C8 does not hold of the code. \<open>run_pipeline\<close> never reads \<open>chunk_size\<close>, and
  \<open>process_script\<close> calls \<open>chunk_text\<close> with the constant 500: whatever \<open>chunk_size\<close> is set
  to, the run is the same. With \<open>chunk_size = 3\<close> the script \<open>abcdef\<close> would have the two
  segments \<open>abc\<close> and \<open>def\<close>; the run makes one segment file and the merged file.
\<close>

theorem run_pipeline_ignores_chunk_size:
  "run_pipeline e (cfg\<lparr>chunk_size := c\<rparr>) w ra rt scripts = run_pipeline e cfg w ra rt scripts
   \<and> chunk_size small_chunk_config = Some 3
   \<and> read_text hello_state [''scripts'', ''hello.txt''] = Inr ''abcdef''
   \<and> chunk_text ''abcdef'' 3 = Some [''abc'', ''def'']
   \<and> chunk_text (strip ''abcdef'') 500 = Some [''abcdef'']
   \<and> map_option (fst \<circ> snd)
        (run_pipeline working_env small_chunk_config hello_state [''ref.wav''] ''ref''
           [[''scripts'', ''hello.txt'']])
     = Some [[''project'', ''temp'', ''hello_chunk_001.wav''],
             [''project'', ''output'', ''generated_audio'', ''hello_complete.wav'']]"
proof -
  have "run_pipeline e (cfg\<lparr>chunk_size := c\<rparr>) w ra rt scripts = run_pipeline e cfg w ra rt scripts"
    by (simp add: run_pipeline_def run_scripts_chunk_size)
  moreover have "chunk_size small_chunk_config = Some 3"
    by (simp add: small_chunk_config_def)
  moreover have "read_text hello_state [''scripts'', ''hello.txt''] = Inr ''abcdef''"
    by (simp add: read_text_def hello_state_def)
  moreover have "chunk_text ''abcdef'' 3 = Some [''abc'', ''def'']"
    by code_simp
  moreover have "chunk_text (strip ''abcdef'') 500 = Some [''abcdef'']"
    by code_simp
  moreover have "map_option (fst \<circ> snd)
        (run_pipeline working_env small_chunk_config hello_state [''ref.wav''] ''ref''
           [[''scripts'', ''hello.txt'']])
     = Some [[''project'', ''temp'', ''hello_chunk_001.wav''],
             [''project'', ''output'', ''generated_audio'', ''hello_complete.wav'']]"
    by code_simp
  ultimately show ?thesis by (intro conjI)
qed

end
